theory Spec2Isabelle
  imports Main
begin

section \<open>StarLinkAlert.py: the monitor thread, the command queue and the alarm\<close>

text \<open>
  The script polls one device (a ping and an HTTP status fetch), compares the ping
  result with the previous one and, on a change, prints a message, calls two
  notification functions and asks the Tk thread, through \<open>gui_queue\<close>, to show or
  dismiss a full-screen alarm window.

  Modelled here: \<open>check_dish_ping\<close>, \<open>get_dish_status_json\<close>,
  \<open>monitor_starlink_threaded\<close>, \<open>check_gui_queue\<close>,
  \<open>show_visual_alarm_thread_safe\<close> and \<open>dismiss_alarm_thread_safe\<close>.
  Everything the script obtains from outside (the exit status of \<open>ping\<close>, the
  behaviour of \<open>requests\<close>, the two notification functions, an interrupt of
  \<open>time.sleep\<close>) is a field of the record \<open>world\<close>, one record per loop
  iteration. Not modelled: the wall-clock prefix that \<open>display_on_screen\<close> prints,
  the layout and the flashing of the window, and the first, non-queue variant of the
  monitor (\<open>monitor_starlink\<close> with \<open>show_visual_alarm\<close> and \<open>dismiss_alarm\<close>),
  which the script also starts in a thread of its own (lines 218-220) and which shares
  the globals \<open>alarm_state\<close> and \<open>alarm_window\<close>.
\<close>

subsection \<open>Python values and exceptions\<close>

text \<open>What \<open>response.json()\<close> can return; Python's \<open>None\<close> is \<open>JNull\<close>.\<close>

datatype json =
    JNull
  | JBool bool
  | JNum int
  | JStr string
  | JArr "json list"
  | JObj "(string \<times> json) list"

text \<open>Truth value of a decoded payload, as \<open>if current_dish_status:\<close> tests it.\<close>

fun truthy :: "json \<Rightarrow> bool" where
  "truthy JNull = False"
| "truthy (JBool b) = b"
| "truthy (JNum n) = (n \<noteq> 0)"
| "truthy (JStr s) = (s \<noteq> [])"
| "truthy (JArr xs) = (xs \<noteq> [])"
| "truthy (JObj kvs) = (kvs \<noteq> [])"

text \<open>
  An exception is its class, as far as the \<open>except\<close> clauses of the script tell
  classes apart, and the text \<open>str(e)\<close> that the f-strings print.
  \<open>RequestException\<close> stands for \<open>requests.exceptions.RequestException\<close> and its
  subclasses (ConnectionError, Timeout, HTTPError, and the JSONDecodeError of
  requests 2.27 and later); \<open>OtherException\<close> for every other subclass of
  \<open>Exception\<close> (NameError, ValueError, smtplib errors); \<open>OtherBaseException\<close> for
  what is neither (SystemExit).
\<close>

datatype exn_class = RequestException | KeyboardInterrupt | OtherException | OtherBaseException

datatype exn = Exn exn_class string

fun exn_cls :: "exn \<Rightarrow> exn_class" where
  "exn_cls (Exn c m) = c"

fun exn_str :: "exn \<Rightarrow> string" where
  "exn_str (Exn c m) = m"

definition is_RequestException :: "exn \<Rightarrow> bool" where
  "is_RequestException e = (exn_cls e = RequestException)"

definition is_KeyboardInterrupt :: "exn \<Rightarrow> bool" where
  "is_KeyboardInterrupt e = (exn_cls e = KeyboardInterrupt)"

definition is_Exception :: "exn \<Rightarrow> bool" where
  "is_Exception e = (exn_cls e = RequestException \<or> exn_cls e = OtherException)"

subsection \<open>Configuration\<close>

definition DISHY_IP :: string where
  "DISHY_IP = ''192.168.100.1''"

subsection \<open>The probes\<close>

text \<open>
  \<open>check_dish_ping\<close> (lines 117-124): \<open>os.system\<close> returns the exit status of the
  command line; the dish is reachable when it is 0.
\<close>

definition check_dish_ping :: "(string \<Rightarrow> int) \<Rightarrow> string \<Rightarrow> bool" where
  "check_dish_ping os_system ip_address =
     (let response = os_system (''ping -c 1 -W 1 '' @ ip_address @ '' > /dev/null 2>&1'')
      in response = 0)"

text \<open>
  An HTTP response, as far as the script looks at it: its status code, and what
  \<open>response.json()\<close> does (it raises on a body that is not JSON, or returns the
  decoded body).
\<close>

record response =
  status_code :: int
  json_result :: "exn + json"

text \<open>
  \<open>response.raise_for_status()\<close>: ``Raise an HTTPError for bad responses (4xx or
  5xx)'' (the comment of line 130).
\<close>

definition raise_for_status :: "response \<Rightarrow> exn option" where
  "raise_for_status r =
     (if 400 \<le> status_code r \<and> status_code r < 600
      then Some (Exn RequestException ''HTTPError'') else None)"

text \<open>
  \<open>get_dish_status_json\<close> (lines 126-134). \<open>requests_get url\<close> is what
  \<open>requests.get(url, timeout=5)\<close> does: it raises, or returns a response. The
  \<open>except\<close> clause catches \<open>RequestException\<close> only; any other exception leaves
  the function (\<open>Inl\<close>).
\<close>

definition get_dish_status_json :: "(string \<Rightarrow> exn + response) \<Rightarrow> string \<Rightarrow> exn + json" where
  "get_dish_status_json requests_get ip_address =
     (case (case requests_get (''http://'' @ ip_address @ ''/DishyStatus'') of
              Inl e \<Rightarrow> Inl e
            | Inr response \<Rightarrow>
                (case raise_for_status response of
                   Some e \<Rightarrow> Inl e
                 | None \<Rightarrow> json_result response))
      of Inl e \<Rightarrow> (if is_RequestException e then Inr JNull else Inl e)
       | Inr payload \<Rightarrow> Inr payload)"

subsection \<open>The outside world of one loop iteration\<close>

text \<open>
  \<open>send_email_alert\<close> and \<open>send_pushbullet_alert\<close> are called by the monitor but
  defined nowhere in the file, so they are parameters: applied to the two arguments of
  a call, each says whether the call returns (\<open>None\<close>) or raises (\<open>Some e\<close>). In
  the file as it stands every call raises NameError, which is the instance
  \<open>\<lambda>_ _. Some (Exn OtherException ''name 'send_email_alert' is not defined'')\<close>.
  \<open>time.sleep\<close> returns, or is interrupted (KeyboardInterrupt).
\<close>

record world =
  os_system :: "string \<Rightarrow> int"
  requests_get :: "string \<Rightarrow> exn + response"
  send_email_alert :: "string \<Rightarrow> string \<Rightarrow> exn option"
  send_pushbullet_alert :: "string \<Rightarrow> string \<Rightarrow> exn option"
  sleep_interrupted :: bool

subsection \<open>State\<close>

text \<open>
  A queue entry is one of the three callables the monitor puts:
  \<open>dismiss_alarm_thread_safe\<close> (line 322); the lambda of line 333, which calls
  \<open>show_visual_alarm_thread_safe\<close> with a constant message (\<open>Show\<close> carries the
  message); and the lambda of line 348,
  \<open>lambda: show_visual_alarm_thread_safe(f"MONITOR ERROR: {e}")\<close>, which reads the
  variable \<open>e\<close> of the except clause when it is called, not when it is put.
\<close>

datatype callback = Dismiss | Show string | ShowError

text \<open>
  What the program does that can be observed, in the order it happens: a line printed
  by \<open>display_on_screen\<close>, a call of a notification function with its two
  arguments, a \<open>gui_queue.put\<close>, a \<open>callback()\<close> of \<open>check_gui_queue\<close>, and
  the traceback of an exception that nobody catches (it ends the monitor thread, or
  leaves \<open>check_gui_queue\<close> and is printed by Tk).
\<close>

datatype event =
    Display string
  | Email string string
  | Push string string
  | Put callback
  | Call callback
  | Traceback exn

text \<open>A \<open>tk.Toplevel\<close> alarm window: an identity and the text of its label.\<close>

record window =
  wid :: nat
  message_label :: string

text \<open>
  The globals \<open>alarm_window\<close>, \<open>alarm_state\<close>, \<open>flash_color_index\<close> and
  \<open>gui_queue\<close>; the Toplevel windows that exist (\<open>toplevels\<close>) and how many were
  ever created (\<open>created\<close>, the next identity); the locals of the monitor thread,
  among them the variable \<open>e\<close> of the except clause of line 343 (\<open>bound_e\<close>,
  \<open>None\<close> while it is unbound); whether the monitor thread is still in its loop;
  and the events so far.
\<close>

record state =
  alarm_window :: "window option"
  alarm_state :: bool
  flash_color_index :: nat
  toplevels :: "nat list"
  created :: nat
  gui_queue :: "callback list"
  dish_online_previous_state :: bool
  dish_status_previous :: json
  bound_e :: "exn option"
  running :: bool
  trace :: "event list"

definition emit :: "event \<Rightarrow> state \<Rightarrow> state" where
  "emit ev s = s\<lparr>trace := trace s @ [ev]\<rparr>"

definition display_on_screen :: "string \<Rightarrow> state \<Rightarrow> state" where
  "display_on_screen message = emit (Display message)"

text \<open>\<open>gui_queue.put(callback)\<close>: the queue is unbounded, the entry goes to its end.\<close>

definition put :: "callback \<Rightarrow> state \<Rightarrow> state" where
  "put callback s = emit (Put callback) (s\<lparr>gui_queue := gui_queue s @ [callback]\<rparr>)"

subsection \<open>The alarm window (Tk thread)\<close>

text \<open>\<open>show_visual_alarm_thread_safe\<close> (lines 242-284).\<close>

definition show_visual_alarm_thread_safe :: "string \<Rightarrow> state \<Rightarrow> state" where
  "show_visual_alarm_thread_safe alert_message s =
     (if alarm_state s then s
      else s\<lparr>alarm_state := True,
             flash_color_index := 0,
             alarm_window := Some \<lparr>wid = created s, message_label = alert_message\<rparr>,
             toplevels := created s # toplevels s,
             created := Suc (created s)\<rparr>)"

text \<open>\<open>dismiss_alarm_thread_safe\<close> (lines 286-292).\<close>

definition dismiss_alarm_thread_safe :: "state \<Rightarrow> state" where
  "dismiss_alarm_thread_safe s =
     display_on_screen ''Alarm dismissed.''
       ((case alarm_window s of
           None \<Rightarrow> s
         | Some w \<Rightarrow> s\<lparr>toplevels := removeAll (wid w) (toplevels s), alarm_window := None\<rparr>)
        \<lparr>alarm_state := False\<rparr>)"

text \<open>
  Calling a queue entry. In Python 3 the name bound by \<open>except ... as e\<close> is
  deleted when the except clause is left, so the lambda of line 348 raises NameError
  when it is called after that, and shows the alarm only when it is called before.
\<close>

definition invoke :: "callback \<Rightarrow> state \<Rightarrow> state \<times> exn option" where
  "invoke callback s =
     (case callback of
        Dismiss \<Rightarrow> (dismiss_alarm_thread_safe s, None)
      | Show alert_message \<Rightarrow> (show_visual_alarm_thread_safe alert_message s, None)
      | ShowError \<Rightarrow>
          (case bound_e s of
             Some e \<Rightarrow> (show_visual_alarm_thread_safe (''MONITOR ERROR: '' @ exn_str e) s, None)
           | None \<Rightarrow>
               (s, Some (Exn OtherException
                  ''cannot access free variable 'e' where it is not associated with a value in enclosing scope''))))"

text \<open>\<open>gui_queue.get_nowait()\<close>: the oldest entry, or \<open>queue.Empty\<close> (\<open>None\<close>).\<close>

definition get_nowait :: "state \<Rightarrow> (callback \<times> state) option" where
  "get_nowait s =
     (case gui_queue s of
        [] \<Rightarrow> None
      | callback # rest \<Rightarrow> Some (callback, s\<lparr>gui_queue := rest\<rparr>))"

text \<open>
  One pass of the loop of \<open>check_gui_queue\<close> (lines 234-235): \<open>None\<close> when the
  queue is empty, else the state after the call and the exception the call raised.
\<close>

definition get_and_call :: "state \<Rightarrow> (state \<times> exn option) option" where
  "get_and_call s =
     (case get_nowait s of
        None \<Rightarrow> None
      | Some (callback, s') \<Rightarrow> Some (invoke callback (emit (Call callback) s')))"

text \<open>
  What a pass leaves behind when it is the last one: an exception other than
  \<open>queue.Empty\<close> leaves the loop and the function, and Tk prints its traceback.
\<close>

definition after_call :: "state \<times> exn option \<Rightarrow> state" where
  "after_call r = (case r of (s, None) \<Rightarrow> s | (s, Some e) \<Rightarrow> emit (Traceback e) s)"

text \<open>
  \<open>check_gui_queue\<close> (lines 231-239): get and call until the queue is empty or a
  call raises; the \<open>finally\<close> clause only schedules the next check.
\<close>

function check_gui_queue :: "state \<Rightarrow> state" where
  "check_gui_queue s =
     (case get_and_call s of
        None \<Rightarrow> s
      | Some (s', x) \<Rightarrow> (if x = None then check_gui_queue s' else after_call (s', x)))"
  by pat_completeness auto
termination
proof (relation "measure (\<lambda>s. length (gui_queue s))")
  show "wf (measure (\<lambda>s. length (gui_queue s)))"
    by simp
next
  fix s :: state and r s' x
  assume "get_and_call s = Some r" and "(s', x) = r"
  then have "length (gui_queue s') < length (gui_queue s)"
    by (auto simp: get_and_call_def get_nowait_def invoke_def emit_def display_on_screen_def
        dismiss_alarm_thread_safe_def show_visual_alarm_thread_safe_def
        split: list.splits callback.splits option.splits)
  then show "(s', s) \<in> measure (\<lambda>s. length (gui_queue s))"
    by simp
qed

declare check_gui_queue.simps [simp del]

subsection \<open>The monitor thread\<close>

text \<open>
  A statement returns the state it leaves and the exception it raised, if any;
  \<open>and_then\<close> runs the next statement unless an exception is on its way.
\<close>

definition and_then ::
  "state \<times> exn option \<Rightarrow> (state \<Rightarrow> state \<times> exn option) \<Rightarrow> state \<times> exn option" where
  "and_then r f = (case r of (s, None) \<Rightarrow> f s | (s, Some e) \<Rightarrow> (s, Some e))"

definition call_email :: "world \<Rightarrow> string \<Rightarrow> string \<Rightarrow> state \<Rightarrow> state \<times> exn option" where
  "call_email w subject body s = (emit (Email subject body) s, send_email_alert w subject body)"

definition call_push :: "world \<Rightarrow> string \<Rightarrow> string \<Rightarrow> state \<Rightarrow> state \<times> exn option" where
  "call_push w title body s = (emit (Push title body) s, send_pushbullet_alert w title body)"

definition sleep :: "world \<Rightarrow> state \<Rightarrow> state \<times> exn option" where
  "sleep w s = (s, if sleep_interrupted w then Some (Exn KeyboardInterrupt []) else None)"

text \<open>Lines 317-322: the dish answers and did not before.\<close>

definition went_online :: "world \<Rightarrow> state \<Rightarrow> state \<times> exn option" where
  "went_online w s =
     and_then
       (call_email w ''Starlink Alert'' ''Starlink Dish is back online!''
          (display_on_screen ''Starlink Dish is now ONLINE.'' s))
       (\<lambda>s. and_then
          (call_push w ''Starlink Online'' ''Your Starlink dish is now online.'' s)
          (\<lambda>s. (if alarm_state s then put Dismiss s else s, None)))"

text \<open>Lines 328-333: the dish does not answer and did before.\<close>

definition went_offline :: "world \<Rightarrow> state \<Rightarrow> state \<times> exn option" where
  "went_offline w s =
     and_then
       (call_email w ''Starlink CRITICAL Alert''
          ''WARNING: Starlink Dish has gone OFFLINE! Check connection or if moved.''
          (display_on_screen ''WARNING: Starlink Dish has gone OFFLINE!'' s))
       (\<lambda>s. and_then
          (call_push w ''Starlink Offline!'' ''WARNING: Your Starlink dish has gone offline!'' s)
          (\<lambda>s. (if \<not> alarm_state s then put (Show ''STARLINK OFFLINE! Check Dish!'') s else s,
                None)))"

text \<open>
  Lines 316-333: the \<open>if\<close>/\<open>else\<close> on the current reading. The branch of
  line 324 is \<open>pass\<close>.
\<close>

definition react :: "world \<Rightarrow> bool \<Rightarrow> json \<Rightarrow> state \<Rightarrow> state \<times> exn option" where
  "react w dish_online_current_state current_dish_status s =
     (if dish_online_current_state then
        and_then
          (if \<not> dish_online_previous_state s then went_online w s else (s, None))
          (\<lambda>s. (if truthy current_dish_status then s else s, None))
      else if dish_online_previous_state s then went_offline w s
      else (s, None))"

text \<open>
  One iteration of \<open>while True\<close> (lines 313-338): the two probes, the reaction, the
  two assignments and the sleep.
\<close>

definition loop_body :: "world \<Rightarrow> state \<Rightarrow> state \<times> exn option" where
  "loop_body w s =
     (let dish_online_current_state = check_dish_ping (os_system w) DISHY_IP in
      case get_dish_status_json (requests_get w) DISHY_IP of
        Inl e \<Rightarrow> (s, Some e)
      | Inr current_dish_status \<Rightarrow>
          and_then
            (react w dish_online_current_state current_dish_status s)
            (\<lambda>s. sleep w
                   (s\<lparr>dish_online_previous_state := dish_online_current_state,
                      dish_status_previous := current_dish_status\<rparr>)))"

text \<open>
  Leaving the except clause, if the thread is in one (\<open>e\<close> is unbound then), and
  the function through the \<open>finally\<close> clause (line 350): the thread is over, with
  a traceback if an exception is still on its way.
\<close>

definition leave :: "state \<times> exn option \<Rightarrow> state" where
  "leave r =
     (case r of
        (s, None) \<Rightarrow>
          (display_on_screen ''Background monitoring thread exiting.'' s)
          \<lparr>bound_e := None, running := False\<rparr>
      | (s, Some e) \<Rightarrow>
          (emit (Traceback e) (display_on_screen ''Background monitoring thread exiting.'' s))
          \<lparr>bound_e := None, running := False\<rparr>)"

text \<open>The statements of the clause \<open>except Exception as e\<close> (lines 344-348).\<close>

definition handler_body :: "world \<Rightarrow> exn \<Rightarrow> state \<Rightarrow> state \<times> exn option" where
  "handler_body w e s =
     and_then
       (call_email w ''Starlink Monitor Error'' (''An unexpected error occurred: '' @ exn_str e)
          (display_on_screen (''An unexpected error occurred in monitoring: '' @ exn_str e) s))
       (\<lambda>s. and_then
          (call_push w ''Monitor Error'' (''An unexpected error occurred: '' @ exn_str e) s)
          (\<lambda>s. (if \<not> alarm_state s then put ShowError s else s, None)))"

text \<open>
  The \<open>except\<close> clauses (lines 340-348), which stand outside the loop: the first
  one that matches the exception runs; an exception that none matches, or that the
  clause itself raises, goes on. The clause of line 343 binds \<open>e\<close>; when its
  statements are done the turn of the thread is over with the thread still inside the
  clause (and no longer in the loop), so that the Tk thread may call the entry of line
  348 before the clause is left or after.
\<close>

definition on_exception :: "world \<Rightarrow> exn \<Rightarrow> state \<Rightarrow> state" where
  "on_exception w e s =
     (if is_KeyboardInterrupt e then
        leave (display_on_screen ''Starlink Monitor stopped by user (via console).'' s, None)
      else if is_Exception e then
        (case handler_body w e (s\<lparr>bound_e := Some e\<rparr>) of
           (s', None) \<Rightarrow> s'\<lparr>running := False\<rparr>
         | (s', Some e') \<Rightarrow> leave (s', Some e'))
      else leave (s, Some e))"

text \<open>
  One turn of the monitor thread. In the loop: an iteration, and the except clause if
  the iteration raised. Inside the clause of line 343: leaving it, which unbinds
  \<open>e\<close>, and the function. After that: nothing.
\<close>

definition poll :: "world \<Rightarrow> state \<Rightarrow> state" where
  "poll w s =
     (if running s then
        (case loop_body w s of
           (s', None) \<Rightarrow> s'
         | (s', Some e) \<Rightarrow> on_exception w e s')
      else
        (case bound_e s of
           Some e \<Rightarrow> leave (s, None)
         | None \<Rightarrow> s))"

text \<open>
  The start of the program, up to the first iteration: the globals of lines 30-32, an
  empty queue, and lines 305-309 of the monitor thread (\<open>CHECK_INTERVAL_SECONDS\<close> is
  10; how long the sleep lasts is not modelled).
\<close>

definition initial :: state where
  "initial =
     \<lparr>alarm_window = None, alarm_state = False, flash_color_index = 0,
      toplevels = [], created = 0, gui_queue = [],
      dish_online_previous_state = False, dish_status_previous = JNull,
      bound_e = None, running = True,
      trace = [Display ''Starlink Monitor started in background thread.'',
               Display (''Checking dish at '' @ DISHY_IP @ '' every 10 seconds.'')]\<rparr>"

text \<open>
  \<open>monitor_starlink_threaded\<close> alone, over the worlds of its successive iterations.
\<close>

definition monitor_starlink_threaded :: "world list \<Rightarrow> state" where
  "monitor_starlink_threaded ws = foldl (\<lambda>s w. poll w s) initial ws"

subsection \<open>The two threads together\<close>

text \<open>
  The monitor thread and the Tk thread share \<open>alarm_state\<close> and \<open>gui_queue\<close>. A
  run is any sequence of: a turn of the monitor (\<open>Poll\<close>), a
  \<open>check_gui_queue\<close> that makes one pass only (\<open>Deq\<close>: the monitor may take
  turns while the queue is checked), a whole \<open>check_gui_queue\<close> (\<open>Tick\<close>),
  and the user pressing DISMISS ALARM or closing the alarm window (\<open>Click\<close>, which
  needs a window to press on). A turn of the monitor reads \<open>alarm_state\<close> at most
  once and puts at most one entry, right after the read.
\<close>

datatype input = Poll world | Deq | Tick | Click

fun step :: "state \<Rightarrow> input \<Rightarrow> state" where
  "step s (Poll w) = poll w s"
| "step s Deq = (case get_and_call s of None \<Rightarrow> s | Some r \<Rightarrow> after_call r)"
| "step s Tick = check_gui_queue s"
| "step s Click = (if alarm_window s = None then s else dismiss_alarm_thread_safe s)"

definition run :: "input list \<Rightarrow> state" where
  "run ins = foldl step initial ins"

subsection \<open>Notions used in the statements\<close>

text \<open>What the two probes of an iteration give.\<close>

definition online :: "world \<Rightarrow> bool" where
  "online w = check_dish_ping (os_system w) DISHY_IP"

definition fetched :: "world \<Rightarrow> exn + json" where
  "fetched w = get_dish_status_json (requests_get w) DISHY_IP"

definition fetch_returns :: "world \<Rightarrow> bool" where
  "fetch_returns w = (case fetched w of Inl e \<Rightarrow> False | Inr payload \<Rightarrow> True)"


text \<open>The events between a state and a later one.\<close>

definition added :: "state \<Rightarrow> state \<Rightarrow> event list" where
  "added s s' = drop (length (trace s)) (trace s')"

text \<open>The entries put, and the entries called, in a trace.\<close>

fun puts :: "event list \<Rightarrow> callback list" where
  "puts [] = []"
| "puts (Put callback # tr) = callback # puts tr"
| "puts (ev # tr) = puts tr"

fun calls :: "event list \<Rightarrow> callback list" where
  "calls [] = []"
| "calls (Call callback # tr) = callback # calls tr"
| "calls (ev # tr) = calls tr"

fun is_show :: "callback \<Rightarrow> bool" where
  "is_show (Show alert_message) = True"
| "is_show ShowError = True"
| "is_show Dismiss = False"

fun is_notification :: "event \<Rightarrow> bool" where
  "is_notification (Email subject body) = True"
| "is_notification (Push title body) = True"
| "is_notification ev = False"

text \<open>
  What the call of a notification function does in a world, and that every call
  among some events returns.
\<close>

fun outcome :: "world \<Rightarrow> event \<Rightarrow> exn option" where
  "outcome w (Email subject body) = send_email_alert w subject body"
| "outcome w (Push title body) = send_pushbullet_alert w title body"
| "outcome w ev = None"

definition calls_return :: "world \<Rightarrow> event list \<Rightarrow> bool" where
  "calls_return w evs = list_all (\<lambda>ev. outcome w ev = None) evs"

text \<open>
  The report of a transition: the line, the email call and the push call of lines
  318-320 (the dish is online now) and of lines 329-331 (it is offline now).
\<close>

definition transition_email :: "bool \<Rightarrow> event" where
  "transition_email dish_online_current_state =
     (if dish_online_current_state
      then Email ''Starlink Alert'' ''Starlink Dish is back online!''
      else Email ''Starlink CRITICAL Alert''
             ''WARNING: Starlink Dish has gone OFFLINE! Check connection or if moved.'')"

definition transition_push :: "bool \<Rightarrow> event" where
  "transition_push dish_online_current_state =
     (if dish_online_current_state
      then Push ''Starlink Online'' ''Your Starlink dish is now online.''
      else Push ''Starlink Offline!'' ''WARNING: Your Starlink dish has gone offline!'')"

definition report :: "bool \<Rightarrow> event list" where
  "report dish_online_current_state =
     [Display (if dish_online_current_state then ''Starlink Dish is now ONLINE.''
               else ''WARNING: Starlink Dish has gone OFFLINE!''),
      transition_email dish_online_current_state,
      transition_push dish_online_current_state]"

definition reports :: "event list \<Rightarrow> event list" where
  "reports tr = filter (\<lambda>ev. ev \<in> set (report True @ report False)) tr"

text \<open>The report of an unexpected error (lines 344-346).\<close>

definition error_report :: "exn \<Rightarrow> event list" where
  "error_report e =
     [Display (''An unexpected error occurred in monitoring: '' @ exn_str e),
      Email ''Starlink Monitor Error'' (''An unexpected error occurred: '' @ exn_str e),
      Push ''Monitor Error'' (''An unexpected error occurred: '' @ exn_str e)]"



text \<open>A state without the stored payload.\<close>

definition observable :: "state \<Rightarrow> state" where
  "observable s = s\<lparr>dish_status_previous := JNull\<rparr>"

text \<open>
  Two inputs that are the same but for the payload fetched: both fetches return, and
  the ping result, the notification functions and the sleep agree.
\<close>

fun same_but_payload :: "input \<Rightarrow> input \<Rightarrow> bool" where
  "same_but_payload (Poll w) (Poll w') =
     (online w = online w' \<and> fetch_returns w \<and> fetch_returns w' \<and>
      send_email_alert w = send_email_alert w' \<and>
      send_pushbullet_alert w = send_pushbullet_alert w' \<and>
      sleep_interrupted w = sleep_interrupted w')"
| "same_but_payload Deq Deq = True"
| "same_but_payload Tick Tick = True"
| "same_but_payload Click Click = True"
| "same_but_payload i i' = False"


text \<open>
  A fetch that fails with an exception of \<open>requests\<close>: the connection fails or times
  out, the status is 4xx or 5xx, or the body is not JSON.
\<close>

definition fetch_failed :: "(string \<Rightarrow> exn + response) \<Rightarrow> string \<Rightarrow> bool" where
  "fetch_failed http_get ip_address =
     (case http_get (''http://'' @ ip_address @ ''/DishyStatus'') of
        Inl e \<Rightarrow> is_RequestException e
      | Inr r \<Rightarrow>
          (400 \<le> status_code r \<and> status_code r < 600) \<or>
          (case json_result r of Inl e \<Rightarrow> is_RequestException e | Inr payload \<Rightarrow> False))"

subsection \<open>Sample worlds\<close>

text \<open>The dish answers the ping and the status request; the notifications work.\<close>

definition dish_up :: world where
  "dish_up =
     \<lparr>os_system = (\<lambda>command. 0),
      requests_get = (\<lambda>url. Inr \<lparr>status_code = 200,
                                 json_result = Inr (JObj [(''state'', JStr ''CONNECTED'')])\<rparr>),
      send_email_alert = (\<lambda>subject body. None),
      send_pushbullet_alert = (\<lambda>title body. None),
      sleep_interrupted = False\<rparr>"

text \<open>The dish answers neither (exit status 1 of ping, and a connection error).\<close>

definition dish_down :: world where
  "dish_down =
     \<lparr>os_system = (\<lambda>command. 256),
      requests_get = (\<lambda>url. Inl (Exn RequestException ''Connection refused'')),
      send_email_alert = (\<lambda>subject body. None),
      send_pushbullet_alert = (\<lambda>title body. None),
      sleep_interrupted = False\<rparr>"

text \<open>
  The dish answers, and the notification functions are what they are in the file:
  undefined names.
\<close>

definition dish_up_as_shipped :: world where
  "dish_up_as_shipped =
     dish_up
     \<lparr>send_email_alert :=
        (\<lambda>subject body. Some (Exn OtherException ''name 'send_email_alert' is not defined'')),
      send_pushbullet_alert :=
        (\<lambda>title body. Some (Exn OtherException ''name 'send_pushbullet_alert' is not defined''))\<rparr>"

text \<open>
  The dish answers the ping, and decoding the body of its status response raises an
  error that is no \<open>RequestException\<close> (the ValueError of requests before 2.27).
\<close>

definition dish_up_bad_body :: world where
  "dish_up_bad_body =
     dish_up
     \<lparr>requests_get :=
        (\<lambda>url. Inr \<lparr>status_code = 200,
                     json_result = Inl (Exn OtherException ''Expecting value: line 1 column 1 (char 0)'')\<rparr>)\<rparr>"

text \<open>The dish answers with another payload.\<close>

definition dish_up_obstructed :: world where
  "dish_up_obstructed =
     dish_up
     \<lparr>requests_get :=
        (\<lambda>url. Inr \<lparr>status_code = 200,
                     json_result = Inr (JObj [(''state'', JStr ''OBSTRUCTED''),
                                              (''stowed'', JBool True)])\<rparr>)\<rparr>"

text \<open>
  The dish answers, and a notification function that exists cannot reach its server:
  every email call raises, every push call returns.
\<close>

definition dish_up_mail_down :: world where
  "dish_up_mail_down =
     dish_up
     \<lparr>send_email_alert :=
        (\<lambda>subject body. Some (Exn OtherException ''[Errno 111] Connection refused''))\<rparr>"

subsection \<open>Invariants\<close>

text \<open>
  \<open>alarm_state\<close> is true exactly when \<open>alarm_window\<close> holds a window, and that
  window is the only Toplevel there is.
\<close>

definition alarm_inv :: "state \<Rightarrow> bool" where
  "alarm_inv s =
     (alarm_state s = (alarm_window s \<noteq> None) \<and>
      toplevels s = (case alarm_window s of None \<Rightarrow> [] | Some w \<Rightarrow> [wid w]))"

text \<open>
  What a turn of the monitor may do: leave the alarm alone, add events that are no
  calls, and add to the queue what it put. While \<open>alarm_state\<close> is true it puts no
  \<open>Show\<close>.
\<close>

definition monitor_step :: "state \<Rightarrow> state \<Rightarrow> bool" where
  "monitor_step s s' =
     (alarm_window s' = alarm_window s \<and> alarm_state s' = alarm_state s \<and>
      flash_color_index s' = flash_color_index s \<and> toplevels s' = toplevels s \<and>
      created s' = created s \<and>
      (\<exists>evs. trace s' = trace s @ evs \<and> gui_queue s' = gui_queue s @ puts evs \<and>
             calls evs = [] \<and> (alarm_state s \<longrightarrow> filter is_show (puts evs) = [])))"

text \<open>
  What the Tk thread may do: leave the locals of the monitor alone, take entries from
  the front of the queue and call them, and print that the alarm was dismissed or the
  traceback of a call.
\<close>

definition gui_step :: "state \<Rightarrow> state \<Rightarrow> bool" where
  "gui_step s s' =
     (dish_online_previous_state s' = dish_online_previous_state s \<and>
      dish_status_previous s' = dish_status_previous s \<and>
      bound_e s' = bound_e s \<and> running s' = running s \<and>
      (\<exists>evs. trace s' = trace s @ evs \<and> gui_queue s = calls evs @ gui_queue s' \<and>
             puts evs = [] \<and> reports evs = [] \<and> filter is_notification evs = []))"


text \<open>
  The entry of line 348 is put when the monitor leaves its loop, so it is the last
  entry of the queue if it is there at all.
\<close>

definition error_entry_last :: "state \<Rightarrow> bool" where
  "error_entry_last s =
     (ShowError \<notin> set (butlast (gui_queue s)) \<and> (running s \<longrightarrow> ShowError \<notin> set (gui_queue s)))"

section \<open>Proofs\<close>

subsection \<open>Basic facts\<close>

lemma emit_fields [simp]:
  "alarm_window (emit ev s) = alarm_window s"
  "alarm_state (emit ev s) = alarm_state s"
  "flash_color_index (emit ev s) = flash_color_index s"
  "toplevels (emit ev s) = toplevels s"
  "created (emit ev s) = created s"
  "gui_queue (emit ev s) = gui_queue s"
  "dish_online_previous_state (emit ev s) = dish_online_previous_state s"
  "dish_status_previous (emit ev s) = dish_status_previous s"
  "bound_e (emit ev s) = bound_e s"
  "running (emit ev s) = running s"
  "trace (emit ev s) = trace s @ [ev]"
  by (simp_all add: emit_def)

lemma put_fields [simp]:
  "alarm_window (put c s) = alarm_window s"
  "alarm_state (put c s) = alarm_state s"
  "flash_color_index (put c s) = flash_color_index s"
  "toplevels (put c s) = toplevels s"
  "created (put c s) = created s"
  "gui_queue (put c s) = gui_queue s @ [c]"
  "dish_online_previous_state (put c s) = dish_online_previous_state s"
  "dish_status_previous (put c s) = dish_status_previous s"
  "bound_e (put c s) = bound_e s"
  "running (put c s) = running s"
  "trace (put c s) = trace s @ [Put c]"
  by (simp_all add: put_def)

lemma and_then_simps [simp]:
  "and_then (s, None) f = f s"
  "and_then (s, Some e) f = (s, Some e)"
  by (simp_all add: and_then_def)

lemma puts_append [simp]: "puts (tr @ tr') = puts tr @ puts tr'"
  by (induction tr rule: puts.induct) simp_all

lemma calls_append [simp]: "calls (tr @ tr') = calls tr @ calls tr'"
  by (induction tr rule: calls.induct) simp_all

lemma reports_append [simp]: "reports (tr @ tr') = reports tr @ reports tr'"
  by (simp add: reports_def)

lemma reports_Nil [simp]: "reports [] = []"
  by (simp add: reports_def)

lemma added_append [simp]: "added s (s'\<lparr>trace := trace s @ evs\<rparr>) = evs"
  by (simp add: added_def)

lemma added_eq: "trace s' = trace s @ evs \<Longrightarrow> added s s' = evs"
  by (simp add: added_def)

subsection \<open>Turns of the monitor\<close>

lemma monitor_step_refl: "monitor_step s s"
  by (simp add: monitor_step_def)

lemma monitor_step_trans: "monitor_step s t \<Longrightarrow> monitor_step t u \<Longrightarrow> monitor_step s u"
  by (auto simp: monitor_step_def)

lemma went_online_step: "monitor_step s (fst (went_online w s))"
  unfolding monitor_step_def
  by (auto simp: went_online_def call_email_def call_push_def display_on_screen_def and_then_def
      split: option.splits)

lemma went_offline_step: "monitor_step s (fst (went_offline w s))"
  unfolding monitor_step_def
  by (auto simp: went_offline_def call_email_def call_push_def display_on_screen_def and_then_def
      split: option.splits)

lemma handler_body_step: "monitor_step s (fst (handler_body w e s))"
  unfolding monitor_step_def
  by (auto simp: handler_body_def call_email_def call_push_def display_on_screen_def and_then_def
      split: option.splits)

lemma leave_step: "monitor_step s (fst r) \<Longrightarrow> monitor_step s (leave r)"
  by (cases r) (auto simp: monitor_step_def leave_def display_on_screen_def split: option.splits)

lemma on_exception_step: "monitor_step s (on_exception w e s)"
proof -
  have b: "monitor_step s (s\<lparr>bound_e := Some e\<rparr>)"
    by (simp add: monitor_step_def)
  have h: "monitor_step s (fst (handler_body w e (s\<lparr>bound_e := Some e\<rparr>)))"
    by (rule monitor_step_trans [OF b handler_body_step])
  obtain t x where r: "handler_body w e (s\<lparr>bound_e := Some e\<rparr>) = (t, x)"
    by (cases "handler_body w e (s\<lparr>bound_e := Some e\<rparr>)")
  from h r have "monitor_step s (t\<lparr>running := False\<rparr>)"
    by (auto simp: monitor_step_def)
  moreover from h r have "monitor_step s (leave (t, x))"
    by (simp add: leave_step)
  moreover have "monitor_step s (leave (display_on_screen m s, None))" for m
    by (rule leave_step) (simp add: monitor_step_def display_on_screen_def)
  moreover have "monitor_step s (leave (s, Some e))"
    by (rule leave_step) (simp add: monitor_step_refl)
  ultimately show ?thesis
    using r by (cases x) (simp_all add: on_exception_def)
qed

lemma and_then_step:
  assumes "monitor_step s (fst r)" and "\<And>t. monitor_step t (fst (f t))"
  shows "monitor_step s (fst (and_then r f))"
proof (cases r)
  case (Pair t x)
  show ?thesis
  proof (cases x)
    case None
    with Pair assms(1) assms(2) [of t] show ?thesis
      by (auto intro: monitor_step_trans)
  next
    case (Some e)
    with Pair assms(1) show ?thesis by simp
  qed
qed

lemma react_step: "monitor_step s (fst (react w cur p s))"
  unfolding react_def
  by (auto simp: monitor_step_refl went_online_step went_offline_step intro!: and_then_step)

lemma sleep_step:
  "monitor_step t (fst (sleep w (t\<lparr>dish_online_previous_state := a, dish_status_previous := b\<rparr>)))"
  by (simp add: sleep_def monitor_step_def)

lemma loop_body_step: "monitor_step s (fst (loop_body w s))"
proof (cases "get_dish_status_json (requests_get w) DISHY_IP")
  case (Inl e)
  then show ?thesis by (simp add: loop_body_def monitor_step_refl)
next
  case (Inr p)
  show ?thesis
    unfolding loop_body_def Let_def Inr sum.case
    by (intro and_then_step sleep_step react_step)
qed

lemma poll_step: "monitor_step s (poll w s)"
proof (cases "running s")
  case False
  have "monitor_step s (leave (s, None))"
    by (rule leave_step) (simp add: monitor_step_refl)
  with False show ?thesis
    by (simp add: poll_def monitor_step_refl split: option.splits)
next
  case True
  obtain t x where lb: "loop_body w s = (t, x)" by (cases "loop_body w s")
  with loop_body_step [of s w] have st: "monitor_step s t" by simp
  show ?thesis
  proof (cases x)
    case None
    with True lb st show ?thesis by (simp add: poll_def)
  next
    case (Some e)
    have "monitor_step s (on_exception w e t)"
      by (rule monitor_step_trans [OF st on_exception_step])
    with True lb Some show ?thesis by (simp add: poll_def)
  qed
qed

subsection \<open>Turns of the Tk thread\<close>

lemma gui_step_refl: "gui_step s s"
  by (simp add: gui_step_def)

lemma gui_step_trans: "gui_step s t \<Longrightarrow> gui_step t u \<Longrightarrow> gui_step s u"
  by (auto simp: gui_step_def)

lemma dismiss_gui_step: "gui_step s (dismiss_alarm_thread_safe s)"
  by (auto simp: gui_step_def dismiss_alarm_thread_safe_def display_on_screen_def reports_def
      report_def transition_email_def transition_push_def split: option.splits)

lemma get_nowait_Some:
  "get_nowait s = Some (c, s') \<longleftrightarrow> (\<exists>rest. gui_queue s = c # rest \<and> s' = s\<lparr>gui_queue := rest\<rparr>)"
  by (auto simp: get_nowait_def split: list.splits)

lemma invoke_gui_step:
  "gui_step (s\<lparr>gui_queue := c # rest\<rparr>) (fst (invoke c (emit (Call c) (s\<lparr>gui_queue := rest\<rparr>))))"
  unfolding gui_step_def
  by (cases c)
    (auto simp: invoke_def dismiss_alarm_thread_safe_def display_on_screen_def
      show_visual_alarm_thread_safe_def reports_def report_def transition_email_def
      transition_push_def split: option.splits)

lemma get_and_call_gui_step:
  assumes "get_and_call s = Some r"
  shows "gui_step s (fst r)"
proof -
  from assms obtain c rest where q: "gui_queue s = c # rest"
    and r: "r = invoke c (emit (Call c) (s\<lparr>gui_queue := rest\<rparr>))"
    by (auto simp: get_and_call_def get_nowait_def split: list.splits)
  from q have "s = s\<lparr>gui_queue := c # rest\<rparr>" by simp
  with invoke_gui_step [where s = s and c = c and rest = rest] r show ?thesis by simp
qed

lemma after_call_gui_step: "gui_step (fst r) (after_call r)"
  by (cases r)
    (auto simp: after_call_def gui_step_def reports_def report_def transition_email_def
      transition_push_def split: option.splits)

lemma deq_gui_step:
  assumes "get_and_call s = Some r"
  shows "gui_step s (after_call r)"
  by (rule gui_step_trans [OF get_and_call_gui_step [OF assms] after_call_gui_step])

lemma check_gui_queue_gui_step: "gui_step s (check_gui_queue s)"
proof (induction s rule: check_gui_queue.induct)
  case (1 s)
  show ?case
  proof (cases "get_and_call s")
    case None
    then show ?thesis by (simp add: check_gui_queue.simps [of s] gui_step_refl)
  next
    case (Some r)
    obtain s' x where r: "r = (s', x)" by (cases r)
    show ?thesis
    proof (cases x)
      case None
      from Some r have "gui_step s s'"
        using get_and_call_gui_step [of s r] by simp
      moreover from Some r None have "gui_step s' (check_gui_queue s')"
        by (intro "1.IH") simp_all
      ultimately show ?thesis
        using Some r None by (simp add: check_gui_queue.simps [of s]) (blast intro: gui_step_trans)
    next
      case (Some e)
      with \<open>get_and_call s = Some r\<close> r deq_gui_step [of s r] show ?thesis
        by (simp add: check_gui_queue.simps [of s])
    qed
  qed
qed

lemma invoke_frame:
  "gui_queue (fst (invoke c s)) = gui_queue s"
  "running (fst (invoke c s)) = running s"
  "snd (invoke c s) \<noteq> None \<Longrightarrow> c = ShowError"
  by (cases c;
      simp add: invoke_def dismiss_alarm_thread_safe_def display_on_screen_def
        show_visual_alarm_thread_safe_def split: option.splits)+

lemma get_and_call_queue:
  assumes "get_and_call s = Some (s', x)"
  shows "gui_queue s' = tl (gui_queue s)" and "gui_queue s \<noteq> []" and "running s' = running s"
    and "x \<noteq> None \<Longrightarrow> hd (gui_queue s) = ShowError"
proof -
  from assms obtain c rest where q: "gui_queue s = c # rest"
    and r: "invoke c (emit (Call c) (s\<lparr>gui_queue := rest\<rparr>)) = (s', x)"
    by (auto simp: get_and_call_def get_nowait_def split: list.splits)
  from invoke_frame(1) [of c "emit (Call c) (s\<lparr>gui_queue := rest\<rparr>)"] q r
  show "gui_queue s' = tl (gui_queue s)" by simp
  from q show "gui_queue s \<noteq> []" by simp
  from invoke_frame(2) [of c "emit (Call c) (s\<lparr>gui_queue := rest\<rparr>)"] r
  show "running s' = running s" by simp
  from invoke_frame(3) [of c "emit (Call c) (s\<lparr>gui_queue := rest\<rparr>)"] q r
  show "hd (gui_queue s) = ShowError" if "x \<noteq> None"
    using that by simp
qed

lemma error_entry_last_tl:
  assumes "error_entry_last s" and "gui_queue s' = tl (gui_queue s)" and "running s' = running s"
  shows "error_entry_last s'"
proof (cases "gui_queue s")
  case Nil
  with assms show ?thesis by (simp add: error_entry_last_def)
next
  case (Cons c rest)
  with assms show ?thesis
    by (auto simp: error_entry_last_def dest: in_set_butlastD split: if_splits)
qed

lemma check_gui_queue_empties: "error_entry_last s \<Longrightarrow> gui_queue (check_gui_queue s) = []"
proof (induction s rule: check_gui_queue.induct)
  case (1 s)
  show ?case
  proof (cases "get_and_call s")
    case None
    then show ?thesis
      by (simp add: check_gui_queue.simps [of s] get_and_call_def get_nowait_def
          split: list.splits)
  next
    case (Some r)
    obtain s' x where r: "r = (s', x)" by (cases r)
    note q = get_and_call_queue [OF Some [unfolded r]]
    show ?thesis
    proof (cases x)
      case None
      from "1.prems" q(1,3) have "error_entry_last s'"
        by (rule error_entry_last_tl)
      with Some r None have "gui_queue (check_gui_queue s') = []"
        by (intro "1.IH") simp_all
      with Some r None show ?thesis by (simp add: check_gui_queue.simps [of s])
    next
      case (Some e)
      with q(4) have "hd (gui_queue s) = ShowError" by simp
      with q(2) "1.prems" have "tl (gui_queue s) = []"
        by (cases "gui_queue s") (auto simp: error_entry_last_def split: if_splits)
      with q(1) Some \<open>get_and_call s = Some r\<close> r show ?thesis
        by (simp add: check_gui_queue.simps [of s] after_call_def)
    qed
  qed
qed

lemma gui_inputs:
  "gui_step s (step s Deq)"
  "gui_step s (step s Tick)"
  "gui_step s (step s Click)"
  by (auto simp: gui_step_refl dismiss_gui_step deq_gui_step check_gui_queue_gui_step
      split: option.splits)

subsection \<open>Runs\<close>

lemma monitor_starlink_threaded_run: "monitor_starlink_threaded ws = run (map Poll ws)"
  by (simp add: monitor_starlink_threaded_def run_def foldl_map)

lemma run_snoc: "run (ins @ [i]) = step (run ins) i"
  by (simp add: run_def)

lemma run_induct [consumes 0, case_names initial step]:
  assumes "P initial" and "\<And>s i. P s \<Longrightarrow> P (step s i)"
  shows "P (run ins)"
proof (induction ins rule: rev_induct)
  case Nil
  from assms(1) show ?case by (simp add: run_def)
next
  case (snoc i ins)
  then show ?case by (simp add: run_snoc assms(2))
qed

subsection \<open>The alarm invariant\<close>

lemma alarm_inv_initial: "alarm_inv initial"
  by (simp add: alarm_inv_def initial_def)

lemma alarm_inv_monitor_step: "monitor_step s s' \<Longrightarrow> alarm_inv s \<Longrightarrow> alarm_inv s'"
  by (simp add: monitor_step_def alarm_inv_def)

lemma alarm_inv_show: "alarm_inv s \<Longrightarrow> alarm_inv (show_visual_alarm_thread_safe m s)"
  by (auto simp: alarm_inv_def show_visual_alarm_thread_safe_def split: option.splits)

lemma alarm_inv_dismiss: "alarm_inv s \<Longrightarrow> alarm_inv (dismiss_alarm_thread_safe s)"
  by (auto simp: alarm_inv_def dismiss_alarm_thread_safe_def display_on_screen_def
      split: option.splits)

lemma alarm_inv_emit: "alarm_inv (emit ev s) = alarm_inv s"
  by (simp add: alarm_inv_def)

lemma alarm_inv_invoke: "alarm_inv s \<Longrightarrow> alarm_inv (fst (invoke c s))"
  by (cases c) (simp_all add: invoke_def alarm_inv_show alarm_inv_dismiss split: option.splits)

lemma alarm_inv_queue: "alarm_inv (s\<lparr>gui_queue := q\<rparr>) = alarm_inv s"
  by (simp add: alarm_inv_def)

lemma alarm_inv_get_and_call:
  "alarm_inv s \<Longrightarrow> get_and_call s = Some r \<Longrightarrow> alarm_inv (fst r)"
  by (auto simp: get_and_call_def get_nowait_def alarm_inv_queue alarm_inv_emit
      intro!: alarm_inv_invoke split: list.splits)

lemma alarm_inv_after_call: "alarm_inv (after_call r) = alarm_inv (fst r)"
  by (cases r) (simp add: after_call_def alarm_inv_emit split: option.splits)

lemma alarm_inv_check_gui_queue: "alarm_inv s \<Longrightarrow> alarm_inv (check_gui_queue s)"
proof (induction s rule: check_gui_queue.induct)
  case (1 s)
  show ?case
  proof (cases "get_and_call s")
    case None
    with "1.prems" show ?thesis by (simp add: check_gui_queue.simps [of s])
  next
    case (Some r)
    obtain s' x where r: "r = (s', x)" by (cases r)
    from "1.prems" Some r have inv: "alarm_inv s'"
      using alarm_inv_get_and_call [of s r] by simp
    show ?thesis
    proof (cases x)
      case None
      with \<open>get_and_call s = Some r\<close> r inv have "alarm_inv (check_gui_queue s')"
        by (intro "1.IH") simp_all
      with \<open>get_and_call s = Some r\<close> r None show ?thesis
        by (simp add: check_gui_queue.simps [of s])
    next
      case (Some e)
      with \<open>get_and_call s = Some r\<close> r inv show ?thesis
        by (simp add: check_gui_queue.simps [of s] alarm_inv_after_call)
    qed
  qed
qed

lemma alarm_inv_step: "alarm_inv s \<Longrightarrow> alarm_inv (step s i)"
proof (cases i)
  case (Poll w)
  assume "alarm_inv s"
  with poll_step [of s w] Poll show ?thesis by (simp add: alarm_inv_monitor_step)
next
  case Deq
  assume "alarm_inv s"
  with Deq show ?thesis
    by (auto simp: alarm_inv_after_call alarm_inv_get_and_call split: option.splits)
next
  case Tick
  assume "alarm_inv s"
  with Tick show ?thesis by (simp add: alarm_inv_check_gui_queue)
next
  case Click
  assume "alarm_inv s"
  with Click show ?thesis by (simp add: alarm_inv_dismiss)
qed

lemma alarm_inv_run: "alarm_inv (run ins)"
  by (induction rule: run_induct) (simp_all add: alarm_inv_initial alarm_inv_step)

subsection \<open>The queue invariant\<close>

lemma queue_monitor_step:
  "monitor_step s s' \<Longrightarrow> calls (trace s) @ gui_queue s = puts (trace s) \<Longrightarrow>
   calls (trace s') @ gui_queue s' = puts (trace s')"
  by (auto simp: monitor_step_def)

lemma queue_gui_step:
  "gui_step s s' \<Longrightarrow> calls (trace s) @ gui_queue s = puts (trace s) \<Longrightarrow>
   calls (trace s') @ gui_queue s' = puts (trace s')"
  by (auto simp: gui_step_def)

lemma queue_step:
  assumes "calls (trace s) @ gui_queue s = puts (trace s)"
  shows "calls (trace (step s i)) @ gui_queue (step s i) = puts (trace (step s i))"
proof (cases i)
  case (Poll w)
  with assms poll_step [of s w] show ?thesis by (simp add: queue_monitor_step)
next
  case Deq
  with assms gui_inputs(1) [of s] show ?thesis by (simp only: queue_gui_step)
next
  case Tick
  with assms gui_inputs(2) [of s] show ?thesis by (simp only: queue_gui_step)
next
  case Click
  with assms gui_inputs(3) [of s] show ?thesis by (simp only: queue_gui_step)
qed

lemma queue_run: "calls (trace (run ins)) @ gui_queue (run ins) = puts (trace (run ins))"
  by (induction rule: run_induct) (simp_all add: initial_def queue_step)

lemma reset_idle: "\<not> alarm_state s \<Longrightarrow> s\<lparr>alarm_state := False\<rparr> = s"
  by (cases s) simp

subsection \<open>Evaluating sample runs\<close>

lemmas world_eval = dish_up_def dish_down_def dish_up_as_shipped_def dish_up_bad_body_def
  dish_up_obstructed_def dish_up_mail_down_def

lemmas run_eval = run_def initial_def poll_def loop_body_def react_def went_online_def
  went_offline_def on_exception_def handler_body_def leave_def call_email_def call_push_def
  sleep_def display_on_screen_def put_def emit_def invoke_def get_nowait_def get_and_call_def
  after_call_def
  show_visual_alarm_thread_safe_def dismiss_alarm_thread_safe_def check_dish_ping_def
  get_dish_status_json_def raise_for_status_def is_RequestException_def is_KeyboardInterrupt_def
  is_Exception_def DISHY_IP_def Let_def check_gui_queue.simps



lemma fetch_returns_samples: "fetch_returns dish_up" "fetch_returns dish_down"
  "fetch_returns dish_up_as_shipped"
  by (simp_all add: fetch_returns_def fetched_def world_eval get_dish_status_json_def
      raise_for_status_def is_RequestException_def)


subsection \<open>Traces of steps\<close>

lemma monitor_step_trace: "monitor_step s s' \<Longrightarrow> trace s' = trace s @ added s s'"
  by (auto simp: monitor_step_def added_def)

lemma monitor_step_added:
  assumes "monitor_step s t" and "monitor_step t u"
  shows "added s u = added s t @ added t u"
  using assms by (auto simp: monitor_step_def added_def)



lemma reports_report [simp]: "reports (report b) = report b"
  by (simp add: reports_def report_def transition_email_def transition_push_def)

lemma reports_Put [simp]: "reports [Put c] = []"
  by (simp add: reports_def report_def transition_email_def transition_push_def)

lemma added_emit2 [simp]: "added s (emit b (emit a s)) = [a, b]"
  by (simp add: added_def)

lemma added_emit3 [simp]: "added s (emit c (emit b (emit a s))) = [a, b, c]"
  by (simp add: added_def)

subsection \<open>Turns in which nothing fails\<close>






subsection \<open>A dish that never answers\<close>





subsection \<open>The stored payload is never read\<close>

lemma went_online_payload:
  "went_online w (s\<lparr>dish_status_previous := j\<rparr>) =
     apfst (\<lambda>t. t\<lparr>dish_status_previous := j\<rparr>) (went_online w s)"
  by (simp add: went_online_def call_email_def call_push_def display_on_screen_def emit_def
      put_def and_then_def split: option.splits)

lemma went_offline_payload:
  "went_offline w (s\<lparr>dish_status_previous := j\<rparr>) =
     apfst (\<lambda>t. t\<lparr>dish_status_previous := j\<rparr>) (went_offline w s)"
  by (simp add: went_offline_def call_email_def call_push_def display_on_screen_def emit_def
      put_def and_then_def split: option.splits)

lemma handler_body_payload:
  "handler_body w e (s\<lparr>dish_status_previous := j\<rparr>) =
     apfst (\<lambda>t. t\<lparr>dish_status_previous := j\<rparr>) (handler_body w e s)"
  by (simp add: handler_body_def call_email_def call_push_def display_on_screen_def emit_def
      put_def and_then_def split: option.splits)

lemma leave_payload:
  "leave (s\<lparr>dish_status_previous := j\<rparr>, x) = (leave (s, x))\<lparr>dish_status_previous := j\<rparr>"
  by (simp add: leave_def display_on_screen_def emit_def split: option.splits)

lemma on_exception_payload:
  "on_exception w e (s\<lparr>dish_status_previous := j\<rparr>) =
     (on_exception w e s)\<lparr>dish_status_previous := j\<rparr>"
proof (cases "is_KeyboardInterrupt e")
  case True
  then show ?thesis
    by (simp add: on_exception_def leave_def display_on_screen_def emit_def)
next
  case False
  note interrupt = this
  show ?thesis
  proof (cases "is_Exception e")
    case False
    with interrupt show ?thesis
      by (simp add: on_exception_def leave_payload)
  next
    case True
    have "s\<lparr>dish_status_previous := j, bound_e := Some e\<rparr> =
        s\<lparr>bound_e := Some e, dish_status_previous := j\<rparr>"
      by (cases s) simp
    then have h: "handler_body w e (s\<lparr>dish_status_previous := j, bound_e := Some e\<rparr>) =
        apfst (\<lambda>t. t\<lparr>dish_status_previous := j\<rparr>) (handler_body w e (s\<lparr>bound_e := Some e\<rparr>))"
      by (simp only: handler_body_payload)
    obtain t x where r: "handler_body w e (s\<lparr>bound_e := Some e\<rparr>) = (t, x)"
      by (cases "handler_body w e (s\<lparr>bound_e := Some e\<rparr>)")
    have "t\<lparr>dish_status_previous := j, running := False\<rparr> =
        t\<lparr>running := False, dish_status_previous := j\<rparr>"
      by (cases t) simp
    with interrupt True h r show ?thesis
      by (cases x) (simp_all add: on_exception_def leave_payload)
  qed
qed

lemma react_payload:
  "react w cur p (s\<lparr>dish_status_previous := j\<rparr>) =
     apfst (\<lambda>t. t\<lparr>dish_status_previous := j\<rparr>) (react w cur p s)"
proof -
  have "and_then (apfst (\<lambda>t. t\<lparr>dish_status_previous := j\<rparr>) r) (\<lambda>s. (s, None)) =
      apfst (\<lambda>t. t\<lparr>dish_status_previous := j\<rparr>) (and_then r (\<lambda>s. (s, None)))" for r
    by (cases r) (simp add: and_then_def split: option.splits)
  then show ?thesis
    by (simp add: react_def went_online_payload went_offline_payload)
qed

lemma react_world:
  assumes "send_email_alert w = send_email_alert w'"
    and "send_pushbullet_alert w = send_pushbullet_alert w'"
  shows "react w cur p s = react w' cur p' s"
  using assms
  by (simp add: react_def went_online_def went_offline_def call_email_def call_push_def)

lemma on_exception_world:
  assumes "send_email_alert w = send_email_alert w'"
    and "send_pushbullet_alert w = send_pushbullet_alert w'"
  shows "on_exception w e s = on_exception w' e s"
  using assms
  by (simp add: on_exception_def handler_body_def call_email_def call_push_def)

lemma loop_body_payload:
  assumes "same_but_payload (Poll w) (Poll w')"
  shows "\<exists>j'. loop_body w' (s\<lparr>dish_status_previous := j\<rparr>) =
           apfst (\<lambda>t. t\<lparr>dish_status_previous := j'\<rparr>) (loop_body w s)"
proof -
  from assms obtain p p' where f: "get_dish_status_json (requests_get w) DISHY_IP = Inr p"
    and f': "get_dish_status_json (requests_get w') DISHY_IP = Inr p'"
    by (auto simp: fetch_returns_def fetched_def split: sum.splits)
  from assms have o: "check_dish_ping (os_system w') DISHY_IP = check_dish_ping (os_system w) DISHY_IP"
    and sinks: "send_email_alert w = send_email_alert w'"
      "send_pushbullet_alert w = send_pushbullet_alert w'"
    and sl: "sleep_interrupted w' = sleep_interrupted w"
    by (simp_all add: online_def)
  obtain t x where r: "react w (check_dish_ping (os_system w) DISHY_IP) p s = (t, x)"
    by (cases "react w (check_dish_ping (os_system w) DISHY_IP) p s")
  from r have r': "react w' (check_dish_ping (os_system w) DISHY_IP) p' (s\<lparr>dish_status_previous := j\<rparr>) =
      (t\<lparr>dish_status_previous := j\<rparr>, x)"
    by (simp add: react_payload react_world [OF sinks, symmetric, of _ p' _ p])
  show ?thesis
  proof (cases x)
    case None
    with f f' o r r' sl have "loop_body w' (s\<lparr>dish_status_previous := j\<rparr>) =
           apfst (\<lambda>t. t\<lparr>dish_status_previous := p'\<rparr>) (loop_body w s)"
      by (simp add: loop_body_def sleep_def)
    then show ?thesis ..
  next
    case (Some e)
    with f f' o r r' have "loop_body w' (s\<lparr>dish_status_previous := j\<rparr>) =
           apfst (\<lambda>t. t\<lparr>dish_status_previous := j\<rparr>) (loop_body w s)"
      by (simp add: loop_body_def)
    then show ?thesis ..
  qed
qed

lemma poll_payload:
  assumes "same_but_payload (Poll w) (Poll w')"
  shows "\<exists>j'. poll w' (s\<lparr>dish_status_previous := j\<rparr>) = (poll w s)\<lparr>dish_status_previous := j'\<rparr>"
proof (cases "running s")
  case False
  have "leave (s\<lparr>dish_status_previous := j\<rparr>, None) = (leave (s, None))\<lparr>dish_status_previous := j\<rparr>"
    by (rule leave_payload)
  with False have "poll w' (s\<lparr>dish_status_previous := j\<rparr>) = (poll w s)\<lparr>dish_status_previous := j\<rparr>"
    by (simp add: poll_def split: option.splits)
  then show ?thesis ..
next
  case True
  from assms have sinks: "send_email_alert w = send_email_alert w'"
      "send_pushbullet_alert w = send_pushbullet_alert w'"
    by simp_all
  from loop_body_payload [OF assms] obtain j' where
    lb: "loop_body w' (s\<lparr>dish_status_previous := j\<rparr>) =
           apfst (\<lambda>t. t\<lparr>dish_status_previous := j'\<rparr>) (loop_body w s)"
    by blast
  obtain t x where r: "loop_body w s = (t, x)" by (cases "loop_body w s")
  from True lb r have "poll w' (s\<lparr>dish_status_previous := j\<rparr>) = (poll w s)\<lparr>dish_status_previous := j'\<rparr>"
    by (cases x)
      (simp_all add: poll_def on_exception_payload on_exception_world [OF sinks, symmetric])
  then show ?thesis ..
qed

lemma invoke_payload:
  "invoke c (s\<lparr>dish_status_previous := j\<rparr>) =
     apfst (\<lambda>t. t\<lparr>dish_status_previous := j\<rparr>) (invoke c s)"
  by (cases c)
    (simp_all add: invoke_def emit_def display_on_screen_def dismiss_alarm_thread_safe_def
      show_visual_alarm_thread_safe_def split: option.splits)

lemma get_and_call_payload:
  "get_and_call (s\<lparr>dish_status_previous := j\<rparr>) =
     map_option (apfst (\<lambda>t. t\<lparr>dish_status_previous := j\<rparr>)) (get_and_call s)"
proof (cases "gui_queue s")
  case Nil
  then show ?thesis by (simp add: get_and_call_def get_nowait_def)
next
  case (Cons c rest)
  have e: "emit (Call c) (s\<lparr>dish_status_previous := j, gui_queue := rest\<rparr>) =
      (emit (Call c) (s\<lparr>gui_queue := rest\<rparr>))\<lparr>dish_status_previous := j\<rparr>"
    by (simp add: emit_def)
  from Cons show ?thesis
    by (simp add: get_and_call_def get_nowait_def e invoke_payload)
qed

lemma after_call_payload:
  "after_call (apfst (\<lambda>t. t\<lparr>dish_status_previous := j\<rparr>) r) =
     (after_call r)\<lparr>dish_status_previous := j\<rparr>"
  by (cases r) (simp add: after_call_def emit_def split: option.splits)

lemma check_gui_queue_payload:
  "check_gui_queue (s\<lparr>dish_status_previous := j\<rparr>) = (check_gui_queue s)\<lparr>dish_status_previous := j\<rparr>"
proof (induction s rule: check_gui_queue.induct)
  case (1 s)
  show ?case
  proof (cases "get_and_call s")
    case None
    then show ?thesis
      by (simp add: check_gui_queue.simps [of s]
          check_gui_queue.simps [of "s\<lparr>dish_status_previous := j\<rparr>"] get_and_call_payload)
  next
    case (Some r)
    obtain s' x where r: "r = (s', x)" by (cases r)
    show ?thesis
    proof (cases x)
      case None
      with Some r have "check_gui_queue (s'\<lparr>dish_status_previous := j\<rparr>) =
          (check_gui_queue s')\<lparr>dish_status_previous := j\<rparr>"
        by (intro "1.IH") simp_all
      with Some r None show ?thesis
        by (simp add: check_gui_queue.simps [of s]
            check_gui_queue.simps [of "s\<lparr>dish_status_previous := j\<rparr>"] get_and_call_payload)
    next
      case (Some e)
      with \<open>get_and_call s = Some r\<close> r after_call_payload [of j "(s', x)"] show ?thesis
        by (simp add: check_gui_queue.simps [of s]
            check_gui_queue.simps [of "s\<lparr>dish_status_previous := j\<rparr>"] get_and_call_payload)
    qed
  qed
qed

lemma step_payload:
  assumes "same_but_payload i i'"
  shows "\<exists>j'. step (s\<lparr>dish_status_previous := j\<rparr>) i' = (step s i)\<lparr>dish_status_previous := j'\<rparr>"
proof (cases i)
  case (Poll w)
  with assms obtain w' where i': "i' = Poll w'" by (cases i') simp_all
  with assms Poll poll_payload [where w = w and w' = w' and s = s and j = j] show ?thesis by simp
next
  case Deq
  with assms have "i' = Deq" by (cases i') simp_all
  with Deq have "step (s\<lparr>dish_status_previous := j\<rparr>) i' = (step s i)\<lparr>dish_status_previous := j\<rparr>"
    by (simp add: get_and_call_payload after_call_payload split: option.splits)
  then show ?thesis ..
next
  case Tick
  with assms have "i' = Tick" by (cases i') simp_all
  with Tick have "step (s\<lparr>dish_status_previous := j\<rparr>) i' = (step s i)\<lparr>dish_status_previous := j\<rparr>"
    by (simp add: check_gui_queue_payload)
  then show ?thesis ..
next
  case Click
  with assms have "i' = Click" by (cases i') simp_all
  with Click have "step (s\<lparr>dish_status_previous := j\<rparr>) i' = (step s i)\<lparr>dish_status_previous := j\<rparr>"
    by (simp add: dismiss_alarm_thread_safe_def display_on_screen_def emit_def split: option.splits)
  then show ?thesis ..
qed

lemma foldl_payload:
  assumes "list_all2 same_but_payload xs ys"
  shows "\<exists>j'. foldl step (s\<lparr>dish_status_previous := j\<rparr>) ys =
           (foldl step s xs)\<lparr>dish_status_previous := j'\<rparr>"
  using assms
proof (induction xs ys arbitrary: s j rule: list_all2_induct)
  case Nil
  have "foldl step (s\<lparr>dish_status_previous := j\<rparr>) [] = (foldl step s [])\<lparr>dish_status_previous := j\<rparr>"
    by simp
  then show ?case ..
next
  case (Cons x xs y ys)
  from step_payload [OF Cons.hyps(1)] obtain j1 where
    "step (s\<lparr>dish_status_previous := j\<rparr>) y = (step s x)\<lparr>dish_status_previous := j1\<rparr>"
    by blast
  with Cons.IH [where s = "step s x" and j = j1] show ?case
    by (simp del: step.simps)
qed

subsection \<open>Turns that raise\<close>

lemma leave_not_running: "\<not> running (leave r)"
  by (cases r) (simp add: leave_def split: option.splits)

lemma leave_unbound: "bound_e (leave r) = None"
  by (cases r) (simp add: leave_def split: option.splits)

lemma on_exception_not_running: "\<not> running (on_exception w e s)"
  by (simp add: on_exception_def leave_not_running split: prod.splits option.splits)

lemma poll_stopped: "\<not> running s \<Longrightarrow> bound_e s = None \<Longrightarrow> poll w s = s"
  by (simp add: poll_def)

lemma poll_raise:
  "running s \<Longrightarrow> loop_body w s = (t, Some e) \<Longrightarrow> poll w s = on_exception w e t"
  by (simp add: poll_def)

lemma is_Exception_not_interrupt: "is_Exception e \<Longrightarrow> \<not> is_KeyboardInterrupt e"
  by (auto simp: is_Exception_def is_KeyboardInterrupt_def)

lemma handler_events: "transition_push b \<notin> set (added t (on_exception w e t))"
  by (simp add: on_exception_def handler_body_def leave_def call_email_def call_push_def
      display_on_screen_def added_def transition_push_def and_then_def split: option.splits)

lemma transition_events_distinct:
  "transition_push b \<noteq> transition_email b" "transition_push b \<noteq> Display m"
  by (simp_all add: transition_push_def transition_email_def)

subsection \<open>The entry of the error alarm comes last\<close>

lemma loop_body_puts:
  assumes "loop_body w s = (t, x)"
  shows "\<exists>ps. gui_queue t = gui_queue s @ ps \<and> length ps \<le> 1 \<and> ShowError \<notin> set ps \<and>
              (ps \<noteq> [] \<longrightarrow> x = None \<or> x = Some (Exn KeyboardInterrupt []))"
proof (cases "get_dish_status_json (requests_get w) DISHY_IP")
  case (Inl e)
  with assms show ?thesis by (auto simp: loop_body_def)
next
  case (Inr p)
  have on: "\<exists>ps. gui_queue (fst (went_online w s)) = gui_queue s @ ps \<and> length ps \<le> 1 \<and>
      ShowError \<notin> set ps \<and> (ps \<noteq> [] \<longrightarrow> snd (went_online w s) = None)"
    by (simp add: went_online_def call_email_def call_push_def display_on_screen_def
        and_then_def split: option.splits)
  have off: "\<exists>ps. gui_queue (fst (went_offline w s)) = gui_queue s @ ps \<and> length ps \<le> 1 \<and>
      ShowError \<notin> set ps \<and> (ps \<noteq> [] \<longrightarrow> snd (went_offline w s) = None)"
    by (simp add: went_offline_def call_email_def call_push_def display_on_screen_def
        and_then_def split: option.splits)
  obtain u y where r: "react w (check_dish_ping (os_system w) DISHY_IP) p s = (u, y)"
    by (cases "react w (check_dish_ping (os_system w) DISHY_IP) p s")
  have "\<exists>ps. gui_queue u = gui_queue s @ ps \<and> length ps \<le> 1 \<and>
      ShowError \<notin> set ps \<and> (ps \<noteq> [] \<longrightarrow> y = None)"
  proof (cases "check_dish_ping (os_system w) DISHY_IP")
    case True
    with r on show ?thesis
      by (cases "went_online w s") (auto simp: react_def and_then_def split: if_splits option.splits)
  next
    case False
    with r off show ?thesis
      by (cases "went_offline w s") (auto simp: react_def split: if_splits)
  qed
  with assms Inr r show ?thesis
    by (cases y) (auto simp: loop_body_def sleep_def split: if_splits)
qed

lemma on_exception_puts:
  "\<exists>ps. gui_queue (on_exception w e s) = gui_queue s @ ps \<and> length ps \<le> 1 \<and>
        (is_KeyboardInterrupt e \<longrightarrow> ps = [])"
  by (simp add: on_exception_def handler_body_def leave_def call_email_def call_push_def
      display_on_screen_def and_then_def split: option.splits)

lemma error_entry_last_poll:
  assumes "error_entry_last s"
  shows "error_entry_last (poll w s)"
proof (cases "running s")
  case False
  with assms show ?thesis
    by (auto simp: poll_def error_entry_last_def leave_def display_on_screen_def
        split: option.splits)
next
  case True
  with assms have clean: "ShowError \<notin> set (gui_queue s)"
    by (simp add: error_entry_last_def)
  obtain t x where lb: "loop_body w s = (t, x)" by (cases "loop_body w s")
  from loop_body_puts [OF lb] obtain ps where
    ps: "gui_queue t = gui_queue s @ ps" "length ps \<le> 1" "ShowError \<notin> set ps"
      "ps \<noteq> [] \<longrightarrow> x = None \<or> x = Some (Exn KeyboardInterrupt [])"
    by blast
  show ?thesis
  proof (cases x)
    case None
    with True lb have "poll w s = t" by (simp add: poll_def)
    with ps clean show ?thesis
      by (auto simp: error_entry_last_def dest: in_set_butlastD)
  next
    case (Some e)
    with True lb have p: "poll w s = on_exception w e t" by (simp add: poll_def)
    from on_exception_puts [of w e t] obtain qs where
      qs: "gui_queue (on_exception w e t) = gui_queue t @ qs" "length qs \<le> 1"
        "is_KeyboardInterrupt e \<longrightarrow> qs = []"
      by blast
    have "ps = [] \<or> qs = []"
      using ps(4) qs(3) Some by (auto simp: is_KeyboardInterrupt_def)
    then have "butlast (gui_queue s @ ps @ qs) = gui_queue s \<or> ps @ qs = []"
      using ps(2) qs(2) by (cases ps; cases qs) auto
    with clean have "ShowError \<notin> set (butlast (gui_queue s @ ps @ qs))"
      by (auto dest: in_set_butlastD)
    with ps(1) qs(1) show ?thesis
      by (simp add: error_entry_last_def p on_exception_not_running)
  qed
qed

lemma error_entry_last_gui_step:
  assumes "error_entry_last s" and "get_and_call s = Some r"
  shows "error_entry_last (after_call r)"
proof -
  obtain s' x where r: "r = (s', x)" by (cases r)
  note q = get_and_call_queue [OF assms(2) [unfolded r]]
  from assms(1) q(1,3) have "error_entry_last s'"
    by (rule error_entry_last_tl)
  then show ?thesis
    by (cases x) (simp_all add: r after_call_def error_entry_last_def)
qed

lemma error_entry_last_step: "error_entry_last s \<Longrightarrow> error_entry_last (step s i)"
proof (cases i)
  case (Poll w)
  assume "error_entry_last s"
  with Poll show ?thesis by (simp add: error_entry_last_poll)
next
  case Deq
  assume "error_entry_last s"
  with Deq show ?thesis by (auto simp: error_entry_last_gui_step split: option.splits)
next
  case Tick
  assume "error_entry_last s"
  then have "gui_queue (check_gui_queue s) = []" by (rule check_gui_queue_empties)
  moreover have "gui_step s (check_gui_queue s)" by (rule check_gui_queue_gui_step)
  ultimately show ?thesis using Tick by (simp add: error_entry_last_def)
next
  case Click
  assume "error_entry_last s"
  with Click show ?thesis
    by (auto simp: error_entry_last_def dismiss_alarm_thread_safe_def display_on_screen_def
        split: option.splits)
qed

lemma error_entry_last_run: "error_entry_last (run ins)"
  by (induction rule: run_induct)
    (simp add: error_entry_last_def initial_def, rule error_entry_last_step)

section \<open>The claims\<close>



text \<open>
  C2. In every run, whatever the order of monitor turns, queue checks and dismissals,
  there is at most one alarm window, and \<open>alarm_state\<close> is true exactly when there
  is one. While \<open>alarm_state\<close> is true, a turn of the monitor puts no entry that
  shows an alarm into the queue (the guards of lines 332 and 347), and calling such an
  entry creates no window (the guard of line 244).
\<close>

theorem at_most_one_alarm:
  "length (toplevels (run ins)) \<le> 1 \<and>
   alarm_state (run ins) = (toplevels (run ins) \<noteq> []) \<and>
   (alarm_state (run ins) \<longrightarrow>
      filter is_show (gui_queue (step (run ins) (Poll w))) = filter is_show (gui_queue (run ins))) \<and>
   (alarm_state (run ins) \<and> is_show callback \<longrightarrow>
      toplevels (fst (invoke callback (run ins))) = toplevels (run ins) \<and>
      created (fst (invoke callback (run ins))) = created (run ins))"
proof -
  have inv: "alarm_inv (run ins)" by (rule alarm_inv_run)
  have "monitor_step (run ins) (poll w (run ins))" by (rule poll_step)
  then have "alarm_state (run ins) \<Longrightarrow>
      filter is_show (gui_queue (poll w (run ins))) = filter is_show (gui_queue (run ins))"
    by (auto simp: monitor_step_def)
  moreover have "alarm_state (run ins) \<Longrightarrow> is_show callback \<Longrightarrow>
      fst (invoke callback (run ins)) = run ins"
    by (cases callback)
      (simp_all add: invoke_def show_visual_alarm_thread_safe_def split: option.splits)
  ultimately show ?thesis
    using inv by (auto simp: alarm_inv_def split: option.splits)
qed

text \<open>
  The alarm is up and the dish, back online for one reading, goes offline again before
  the queue is checked: the report is made, and no second \<open>Show\<close> is put.
\<close>

theorem at_most_one_alarm_witness:
  "alarm_state (run [Poll dish_up, Poll dish_down, Tick, Poll dish_up]) \<and>
   added (run [Poll dish_up, Poll dish_down, Tick, Poll dish_up])
     (step (run [Poll dish_up, Poll dish_down, Tick, Poll dish_up]) (Poll dish_down)) = report False \<and>
   filter is_show (gui_queue (step (run [Poll dish_up, Poll dish_down, Tick, Poll dish_up]) (Poll dish_down))) =
     filter is_show (gui_queue (run [Poll dish_up, Poll dish_down, Tick, Poll dish_up])) \<and>
   toplevels (fst (invoke (Show ''STARLINK OFFLINE! Check Dish!'')
     (run [Poll dish_up, Poll dish_down, Tick, Poll dish_up]))) = [0]"
proof -
  have up: "alarm_state (run [Poll dish_up, Poll dish_down, Tick, Poll dish_up])"
    by (simp add: run_eval world_eval)
  have tops: "toplevels (run [Poll dish_up, Poll dish_down, Tick, Poll dish_up]) = [0]"
    by (simp add: run_eval world_eval)
  have rep: "added (run [Poll dish_up, Poll dish_down, Tick, Poll dish_up])
     (step (run [Poll dish_up, Poll dish_down, Tick, Poll dish_up]) (Poll dish_down)) = report False"
    by (simp add: run_eval world_eval added_def report_def transition_email_def transition_push_def)
  from up tops rep
    at_most_one_alarm [of "[Poll dish_up, Poll dish_down, Tick, Poll dish_up]" dish_down
      "Show ''STARLINK OFFLINE! Check Dish!''"]
  show ?thesis by simp
qed

text \<open>
  C3, as the specification states it, does not hold: after an unexpected failure the
  monitor does not poll again. The body of the status response cannot be decoded and
  the error is no \<open>RequestException\<close>; it is reported, the thread leaves its loop
  and ends, and later turns change nothing: the Online reading that follows is not
  reported. The entry put for the error alarm is called after the except clause was
  left: the call raises NameError and no alarm is shown.
\<close>

theorem loop_ends_counterexample:
  "trace (run [Poll dish_up_bad_body, Poll dish_up, Poll dish_up]) =
     trace initial @
     error_report (Exn OtherException ''Expecting value: line 1 column 1 (char 0)'') @
     [Put ShowError, Display ''Background monitoring thread exiting.''] \<and>
   \<not> running (run [Poll dish_up_bad_body]) \<and>
   run [Poll dish_up_bad_body, Poll dish_up, Poll dish_up] = run [Poll dish_up_bad_body, Poll dish_up] \<and>
   added (run [Poll dish_up_bad_body, Poll dish_up]) (run [Poll dish_up_bad_body, Poll dish_up, Tick]) =
     [Call ShowError,
      Traceback (Exn OtherException
        ''cannot access free variable 'e' where it is not associated with a value in enclosing scope'')] \<and>
   \<not> alarm_state (run [Poll dish_up_bad_body, Poll dish_up, Tick]) \<and>
   alarm_window (run [Poll dish_up_bad_body, Poll dish_up, Tick]) = None"
  by (simp add: run_eval world_eval error_report_def added_def)

text \<open>
  C3 (amended). An unexpected failure raised inside an iteration (an \<open>Exception\<close>
  that is no KeyboardInterrupt) is reported once, provided the two notification calls
  of the handler return: the console line, the email call, the push call and, unless
  \<open>alarm_state\<close> is already true, one entry for an error alarm put into the queue.
  With that the monitor has left its loop for good: its next turn prints ``Background
  monitoring thread exiting.'', and no later turn does anything.
\<close>

theorem unexpected_failure_reported_then_loop_ends:
  assumes "running s" and "loop_body w s = (t, Some e)" and "is_Exception e"
    and "calls_return w (error_report e)"
  shows "added t (poll w s) =
           error_report e @ (if alarm_state s then [] else [Put ShowError]) \<and>
         \<not> running (poll w s) \<and>
         added (poll w s) (step (poll w s) (Poll w')) =
           [Display ''Background monitoring thread exiting.''] \<and>
         step (step (poll w s) (Poll w')) (Poll w'') = step (poll w s) (Poll w')"
proof -
  from assms(1,2) have p: "poll w s = on_exception w e t"
    by (rule poll_raise)
  from loop_body_step [of s w] assms(2) have a: "alarm_state t = alarm_state s"
    by (simp add: monitor_step_def)
  from assms(4) have c:
    "send_email_alert w ''Starlink Monitor Error'' (''An unexpected error occurred: '' @ exn_str e) = None"
    "send_pushbullet_alert w ''Monitor Error'' (''An unexpected error occurred: '' @ exn_str e) = None"
    by (simp_all add: calls_return_def error_report_def)
  from assms(3) have k: "\<not> is_KeyboardInterrupt e"
    by (rule is_Exception_not_interrupt)
  define u where "u = on_exception w e t"
  have tr: "added t u = error_report e @ (if alarm_state s then [] else [Put ShowError])"
    and r: "\<not> running u" and b: "bound_e u = Some e"
    using assms(3) k c a
    by (simp_all add: u_def on_exception_def handler_body_def call_email_def call_push_def
        display_on_screen_def added_def error_report_def)
  from r b have n: "poll w' u = leave (u, None)"
    by (simp add: poll_def)
  then have "added u (poll w' u) = [Display ''Background monitoring thread exiting.'']"
    by (simp add: leave_def display_on_screen_def added_def emit_def)
  moreover from n have "poll w'' (poll w' u) = poll w' u"
    by (simp add: poll_stopped leave_not_running leave_unbound)
  ultimately show ?thesis
    using tr r by (simp add: p u_def)
qed

text \<open>The failure of the counterexample, from the start of the program.\<close>

theorem unexpected_failure_reported_then_loop_ends_witness:
  "running initial \<and>
   loop_body dish_up_bad_body initial =
     (initial, Some (Exn OtherException ''Expecting value: line 1 column 1 (char 0)'')) \<and>
   is_Exception (Exn OtherException ''Expecting value: line 1 column 1 (char 0)'') \<and>
   calls_return dish_up_bad_body
     (error_report (Exn OtherException ''Expecting value: line 1 column 1 (char 0)'')) \<and>
   added initial (poll dish_up_bad_body initial) =
     error_report (Exn OtherException ''Expecting value: line 1 column 1 (char 0)'') @
     [Put ShowError] \<and>
   \<not> running (poll dish_up_bad_body initial) \<and>
   added (poll dish_up_bad_body initial) (step (poll dish_up_bad_body initial) (Poll dish_up)) =
     [Display ''Background monitoring thread exiting.''] \<and>
   step (step (poll dish_up_bad_body initial) (Poll dish_up)) (Poll dish_up) =
     step (poll dish_up_bad_body initial) (Poll dish_up)"
proof -
  have r: "running initial" and a: "\<not> alarm_state initial"
    by (simp_all add: initial_def)
  have l: "loop_body dish_up_bad_body initial =
     (initial, Some (Exn OtherException ''Expecting value: line 1 column 1 (char 0)''))"
    by (simp add: loop_body_def world_eval get_dish_status_json_def raise_for_status_def
        is_RequestException_def)
  have e: "is_Exception (Exn OtherException ''Expecting value: line 1 column 1 (char 0)'')"
    by (simp add: is_Exception_def)
  have c: "calls_return dish_up_bad_body
     (error_report (Exn OtherException ''Expecting value: line 1 column 1 (char 0)''))"
    by (simp add: calls_return_def error_report_def world_eval)
  from r a l e c
    unexpected_failure_reported_then_loop_ends [OF r l e c, of dish_up dish_up]
  show ?thesis by simp
qed

text \<open>
  C4, as the specification states it, does not hold: a notification call that raises
  is caught nowhere near the call. With the notification functions as they are in the
  file (undefined names), and equally with an email function that exists and cannot
  reach its server, the first Online reading prints its line and calls the email
  function; the call raises, no push call is ever made, the handler of line 343 raises
  in its own email call, and the monitor thread ends.
\<close>

theorem email_failure_counterexample:
  "trace (run [Poll dish_up_as_shipped]) =
     trace initial @
     [Display ''Starlink Dish is now ONLINE.'',
      Email ''Starlink Alert'' ''Starlink Dish is back online!'',
      Display ''An unexpected error occurred in monitoring: name 'send_email_alert' is not defined'',
      Email ''Starlink Monitor Error''
        ''An unexpected error occurred: name 'send_email_alert' is not defined'',
      Display ''Background monitoring thread exiting.'',
      Traceback (Exn OtherException ''name 'send_email_alert' is not defined'')] \<and>
   \<not> running (run [Poll dish_up_as_shipped]) \<and>
   trace (run [Poll dish_up_mail_down]) =
     trace initial @
     [Display ''Starlink Dish is now ONLINE.'',
      Email ''Starlink Alert'' ''Starlink Dish is back online!'',
      Display ''An unexpected error occurred in monitoring: [Errno 111] Connection refused'',
      Email ''Starlink Monitor Error''
        ''An unexpected error occurred: [Errno 111] Connection refused'',
      Display ''Background monitoring thread exiting.'',
      Traceback (Exn OtherException ''[Errno 111] Connection refused'')] \<and>
   \<not> running (run [Poll dish_up_mail_down])"
  by (simp add: run_eval world_eval)

text \<open>
  C4 (amended). In a turn that reports a transition the email call is always made. If
  it raises, the push call of the transition is not made and the monitor thread leaves
  its loop; if it returns, the push call is made. If the push call raises, the thread
  leaves its loop as well. Only if both calls return (and the sleep is not interrupted)
  does the loop go on to the next iteration.
\<close>

theorem notification_failure_not_contained:
  assumes "running s" and "fetch_returns w" and "online w \<noteq> dish_online_previous_state s"
  shows "transition_email (online w) \<in> set (added s (poll w s)) \<and>
         (outcome w (transition_email (online w)) \<noteq> None \<longrightarrow>
            transition_push (online w) \<notin> set (added s (poll w s)) \<and> \<not> running (poll w s)) \<and>
         (outcome w (transition_email (online w)) = None \<longrightarrow>
            transition_push (online w) \<in> set (added s (poll w s))) \<and>
         (outcome w (transition_push (online w)) \<noteq> None \<longrightarrow> \<not> running (poll w s)) \<and>
         (outcome w (transition_email (online w)) = None \<and>
          outcome w (transition_push (online w)) = None \<and> \<not> sleep_interrupted w \<longrightarrow>
            running (poll w s))"
proof -
  from assms(2) obtain p where f: "get_dish_status_json (requests_get w) DISHY_IP = Inr p"
    by (auto simp: fetch_returns_def fetched_def split: sum.splits)
  define line where "line = (if online w then ''Starlink Dish is now ONLINE.''
    else ''WARNING: Starlink Dish has gone OFFLINE!'')"
  define s1 where "s1 = emit (transition_email (online w)) (emit (Display line) s)"
  define s2 where "s2 = emit (transition_push (online w)) s1"
  note defs = loop_body_def react_def went_online_def went_offline_def call_email_def
    call_push_def display_on_screen_def online_def [symmetric] Let_def
    transition_email_def transition_push_def line_def s1_def s2_def
  have s1: "monitor_step s s1" "added s s1 = [Display line, transition_email (online w)]"
    by (simp_all add: s1_def monitor_step_def transition_email_def)
  have s2: "monitor_step s s2"
    "added s s2 = [Display line, transition_email (online w), transition_push (online w)]"
    by (simp_all add: s2_def s1_def monitor_step_def transition_email_def transition_push_def)
  show ?thesis
  proof (cases "outcome w (transition_email (online w))")
    case (Some e)
    with f assms(3) have "loop_body w s = (s1, Some e)"
      by (cases "online w") (simp_all add: defs)
    with assms(1) have p: "poll w s = on_exception w e s1"
      by (rule poll_raise)
    have "added s (poll w s) = added s s1 @ added s1 (on_exception w e s1)"
      unfolding p by (rule monitor_step_added [OF s1(1) on_exception_step])
    with Some show ?thesis
      by (simp add: s1(2) handler_events transition_events_distinct)
        (simp add: p on_exception_not_running)
  next
    case None
    note email = this
    show ?thesis
    proof (cases "outcome w (transition_push (online w))")
      case (Some e)
      with f assms(3) email have "loop_body w s = (s2, Some e)"
        by (cases "online w") (simp_all add: defs)
      with assms(1) have p: "poll w s = on_exception w e s2"
        by (rule poll_raise)
      have "added s (poll w s) = added s s2 @ added s2 (on_exception w e s2)"
        unfolding p by (rule monitor_step_added [OF s2(1) on_exception_step])
      with Some email show ?thesis
        by (simp add: s2(2)) (simp add: p on_exception_not_running)
    next
      case None
      define g where "g =
        (if online w then (if alarm_state s then put Dismiss s2 else s2)
         else (if \<not> alarm_state s then put (Show ''STARLINK OFFLINE! Check Dish!'') s2 else s2))
        \<lparr>dish_online_previous_state := online w, dish_status_previous := p\<rparr>"
      from f assms(3) email None have l: "loop_body w s = sleep w g"
        by (cases "online w") (simp_all add: defs g_def)
      have tg: "\<exists>rest. trace g = trace s2 @ rest"
        by (simp add: g_def)
      have "\<exists>rest. trace (poll w s) = trace s2 @ rest"
      proof (cases "sleep_interrupted w")
        case False
        with assms(1) l tg show ?thesis by (simp add: poll_def sleep_def)
      next
        case True
        with assms(1) l have "poll w s = on_exception w (Exn KeyboardInterrupt []) g"
          by (simp add: poll_def sleep_def)
        with monitor_step_trace [OF on_exception_step [where s = g and w = w and e = "Exn KeyboardInterrupt []"]] tg
        show ?thesis by auto
      qed
      then obtain rest where "trace (poll w s) = trace s @ added s s2 @ rest"
        using monitor_step_trace [OF s2(1)] by auto
      then have "added s (poll w s) = added s s2 @ rest"
        by (simp add: added_def)
      then have "transition_email (online w) \<in> set (added s (poll w s)) \<and>
          transition_push (online w) \<in> set (added s (poll w s))"
        by (simp add: s2(2))
      moreover have "running (poll w s)" if "\<not> sleep_interrupted w"
        using that f assms(1,3) email None
        by (cases "online w") (simp_all add: poll_def defs sleep_def)
      ultimately show ?thesis
        using email None by simp
    qed
  qed
qed

text \<open>The first Online reading, with the notification functions as they are in the file.\<close>

theorem notification_failure_not_contained_witness:
  "running initial \<and> fetch_returns dish_up_as_shipped \<and>
   online dish_up_as_shipped \<noteq> dish_online_previous_state initial \<and>
   outcome dish_up_as_shipped (transition_email (online dish_up_as_shipped)) \<noteq> None \<and>
   transition_email (online dish_up_as_shipped) \<in> set (added initial (poll dish_up_as_shipped initial)) \<and>
   transition_push (online dish_up_as_shipped) \<notin> set (added initial (poll dish_up_as_shipped initial)) \<and>
   \<not> running (poll dish_up_as_shipped initial)"
proof -
  have r: "running initial" and p: "\<not> dish_online_previous_state initial"
    by (simp_all add: initial_def)
  have f: "fetch_returns dish_up_as_shipped"
    by (rule fetch_returns_samples)
  have o: "online dish_up_as_shipped"
    by (simp add: online_def check_dish_ping_def world_eval)
  with p have c: "online dish_up_as_shipped \<noteq> dish_online_previous_state initial"
    by simp
  have e: "outcome dish_up_as_shipped (transition_email (online dish_up_as_shipped)) \<noteq> None"
    by (simp add: o transition_email_def) (simp add: world_eval)
  from r f c e notification_failure_not_contained [OF r f c]
  show ?thesis by simp
qed

text \<open>
  C5. In every run the entries called so far, followed by the entries still in the
  queue, are the entries put so far, in the order they were put: the calls are a prefix
  of the puts, so no entry is called before an earlier one, called twice or skipped.
  After a whole \<open>check_gui_queue\<close> every entry put so far has been called (the
  only call that can raise and so end the check early is that of the entry of line
  348, which is the last entry there is).
\<close>

theorem queue_fifo_exactly_once:
  "calls (trace (run ins)) @ gui_queue (run ins) = puts (trace (run ins)) \<and>
   calls (trace (step (run ins) Tick)) = puts (trace (run ins))"
proof
  show "calls (trace (run ins)) @ gui_queue (run ins) = puts (trace (run ins))"
    by (rule queue_run)
next
  have "calls (trace (run (ins @ [Tick]))) @ gui_queue (run (ins @ [Tick])) =
      puts (trace (run (ins @ [Tick])))"
    by (rule queue_run)
  moreover have "gui_queue (run (ins @ [Tick])) = []"
    by (simp add: run_snoc check_gui_queue_empties error_entry_last_run)
  moreover have "puts (trace (step (run ins) Tick)) = puts (trace (run ins))"
    using gui_inputs(2) [of "run ins"] by (auto simp: gui_step_def)
  ultimately show "calls (trace (step (run ins) Tick)) = puts (trace (run ins))"
    by (simp add: run_snoc)
qed

text \<open>
  A \<open>Show\<close> is put and called, a \<open>Dismiss\<close> is put after it: the next check calls
  the \<open>Dismiss\<close>, after the \<open>Show\<close>.
\<close>

theorem queue_fifo_exactly_once_witness:
  "puts (trace (run [Poll dish_up, Poll dish_down, Tick, Poll dish_up])) =
     [Show ''STARLINK OFFLINE! Check Dish!'', Dismiss] \<and>
   gui_queue (run [Poll dish_up, Poll dish_down, Tick, Poll dish_up]) = [Dismiss] \<and>
   calls (trace (step (run [Poll dish_up, Poll dish_down, Tick, Poll dish_up]) Tick)) =
     [Show ''STARLINK OFFLINE! Check Dish!'', Dismiss]"
proof -
  have p: "puts (trace (run [Poll dish_up, Poll dish_down, Tick, Poll dish_up])) =
      [Show ''STARLINK OFFLINE! Check Dish!'', Dismiss]"
    by (simp add: run_eval world_eval)
  have q: "gui_queue (run [Poll dish_up, Poll dish_down, Tick, Poll dish_up]) = [Dismiss]"
    by (simp add: run_eval world_eval)
  from p q queue_fifo_exactly_once [of "[Poll dish_up, Poll dish_down, Tick, Poll dish_up]"]
  show ?thesis by simp
qed

text \<open>
  C6. In every state a run can reach: if \<open>alarm_state\<close> is false,
  \<open>dismiss_alarm_thread_safe\<close> changes nothing but the console, where it prints its
  line (so \<open>alarm_state\<close>, \<open>alarm_window\<close> and the windows are as before); if
  \<open>alarm_state\<close> is true, \<open>show_visual_alarm_thread_safe\<close> changes nothing at
  all.
\<close>

theorem idle_dismiss_and_raised_show_are_noops:
  "(\<not> alarm_state (run ins) \<longrightarrow>
      dismiss_alarm_thread_safe (run ins) = display_on_screen ''Alarm dismissed.'' (run ins)) \<and>
   (alarm_state (run ins) \<longrightarrow>
      show_visual_alarm_thread_safe alert_message (run ins) = run ins)"
proof -
  have inv: "alarm_inv (run ins)" by (rule alarm_inv_run)
  from inv show ?thesis
    by (auto simp: alarm_inv_def dismiss_alarm_thread_safe_def show_visual_alarm_thread_safe_def
        reset_idle split: option.splits)
qed

text \<open>
  Both cases: the alarm raised by the first outage is up, and the alarm is down after
  the user dismissed it.
\<close>

theorem idle_dismiss_and_raised_show_are_noops_witness:
  "alarm_state (run [Poll dish_up, Poll dish_down, Tick]) \<and>
   show_visual_alarm_thread_safe ''STARLINK OFFLINE! Check Dish!''
     (run [Poll dish_up, Poll dish_down, Tick]) = run [Poll dish_up, Poll dish_down, Tick] \<and>
   \<not> alarm_state (run [Poll dish_up, Poll dish_down, Tick, Click]) \<and>
   dismiss_alarm_thread_safe (run [Poll dish_up, Poll dish_down, Tick, Click]) =
     display_on_screen ''Alarm dismissed.'' (run [Poll dish_up, Poll dish_down, Tick, Click])"
proof -
  have up: "alarm_state (run [Poll dish_up, Poll dish_down, Tick])"
    by (simp add: run_eval world_eval)
  have down: "\<not> alarm_state (run [Poll dish_up, Poll dish_down, Tick, Click])"
    by (simp add: run_eval world_eval)
  from up down
    idle_dismiss_and_raised_show_are_noops [of "[Poll dish_up, Poll dish_down, Tick]"
      "''STARLINK OFFLINE! Check Dish!''"]
    idle_dismiss_and_raised_show_are_noops [of "[Poll dish_up, Poll dish_down, Tick, Click]"
      "''STARLINK OFFLINE! Check Dish!''"]
  show ?thesis by simp
qed




text \<open>
  C8, as the specification states it, does not hold for every status that is not 2xx:
  \<open>raise_for_status\<close> raises for 4xx and 5xx only, so a response with status 300
  and a JSON body is decoded and returned.
\<close>

theorem status_300_counterexample:
  "get_dish_status_json
     (\<lambda>url. Inr \<lparr>status_code = 300, json_result = Inr (JObj [(''state'', JStr ''CONNECTED'')])\<rparr>)
     DISHY_IP = Inr (JObj [(''state'', JStr ''CONNECTED'')]) \<and>
   get_dish_status_json
     (\<lambda>url. Inr \<lparr>status_code = 300, json_result = Inr (JObj [(''state'', JStr ''CONNECTED'')])\<rparr>)
     DISHY_IP \<noteq> Inr JNull"
  by (simp add: get_dish_status_json_def raise_for_status_def)

text \<open>
  C8 (amended). When the fetch fails with an exception of \<open>requests\<close> (the
  connection fails or times out, the status is 4xx or 5xx, or the body is not JSON and
  \<open>response.json()\<close> raises the JSONDecodeError of \<open>requests\<close>),
  \<open>get_dish_status_json\<close> returns \<open>None\<close>; and whatever happens, no
  \<open>RequestException\<close> reaches the caller.
\<close>

theorem fetch_failure_gives_None:
  "(fetch_failed http_get ip_address \<longrightarrow> get_dish_status_json http_get ip_address = Inr JNull) \<and>
   (\<forall>e. get_dish_status_json http_get ip_address = Inl e \<longrightarrow> \<not> is_RequestException e)"
  by (auto simp: fetch_failed_def get_dish_status_json_def raise_for_status_def
      is_RequestException_def split: sum.splits option.splits if_splits)

text \<open>A timeout, a status 503 and a body that is not JSON.\<close>

theorem fetch_failure_gives_None_witness:
  "fetch_failed (\<lambda>url. Inl (Exn RequestException ''Read timed out'')) DISHY_IP \<and>
   get_dish_status_json (\<lambda>url. Inl (Exn RequestException ''Read timed out'')) DISHY_IP = Inr JNull \<and>
   fetch_failed (\<lambda>url. Inr \<lparr>status_code = 503, json_result = Inr (JObj [])\<rparr>) DISHY_IP \<and>
   get_dish_status_json (\<lambda>url. Inr \<lparr>status_code = 503, json_result = Inr (JObj [])\<rparr>) DISHY_IP
     = Inr JNull \<and>
   fetch_failed
     (\<lambda>url. Inr \<lparr>status_code = 200,
                  json_result = Inl (Exn RequestException ''Expecting value: line 1 column 1 (char 0)'')\<rparr>)
     DISHY_IP \<and>
   get_dish_status_json
     (\<lambda>url. Inr \<lparr>status_code = 200,
                  json_result = Inl (Exn RequestException ''Expecting value: line 1 column 1 (char 0)'')\<rparr>)
     DISHY_IP = Inr JNull"
proof -
  have a: "fetch_failed (\<lambda>url. Inl (Exn RequestException ''Read timed out'')) DISHY_IP"
    by (simp add: fetch_failed_def is_RequestException_def)
  have b: "fetch_failed (\<lambda>url. Inr \<lparr>status_code = 503, json_result = Inr (JObj [])\<rparr>) DISHY_IP"
    by (simp add: fetch_failed_def)
  have c: "fetch_failed
     (\<lambda>url. Inr \<lparr>status_code = 200,
                  json_result = Inl (Exn RequestException ''Expecting value: line 1 column 1 (char 0)'')\<rparr>)
     DISHY_IP"
    by (simp add: fetch_failed_def is_RequestException_def)
  from a b c
    fetch_failure_gives_None [of "\<lambda>url. Inl (Exn RequestException ''Read timed out'')" DISHY_IP]
    fetch_failure_gives_None [of "\<lambda>url. Inr \<lparr>status_code = 503, json_result = Inr (JObj [])\<rparr>" DISHY_IP]
    fetch_failure_gives_None [of "\<lambda>url. Inr \<lparr>status_code = 200,
                  json_result = Inl (Exn RequestException ''Expecting value: line 1 column 1 (char 0)'')\<rparr>" DISHY_IP]
  show ?thesis by simp
qed

text \<open>
  C9. Two runs whose inputs are the same but for the payloads fetched (all fetches
  return; ping results, notification functions, interrupts, queue checks and dismissals
  agree) end in states that differ at most in the stored payload: same trace (lines,
  notification calls, puts and calls of queue entries), same alarm, same queue.
\<close>

theorem payload_never_observed:
  assumes "list_all2 same_but_payload xs ys"
  shows "observable (run xs) = observable (run ys)"
proof -
  have "initial\<lparr>dish_status_previous := JNull\<rparr> = initial"
    by (simp add: initial_def)
  with foldl_payload [OF assms, where s = initial and j = JNull] obtain j' where
    "run ys = (run xs)\<lparr>dish_status_previous := j'\<rparr>"
    by (auto simp: run_def)
  then show ?thesis by (simp add: observable_def)
qed

text \<open>An outage and a recovery, with two different payloads while the dish is up.\<close>

theorem payload_never_observed_witness:
  "list_all2 same_but_payload
     [Poll dish_up, Poll dish_down, Tick, Poll dish_up]
     [Poll dish_up_obstructed, Poll dish_down, Tick, Poll dish_up_obstructed] \<and>
   observable (run [Poll dish_up, Poll dish_down, Tick, Poll dish_up]) =
     observable (run [Poll dish_up_obstructed, Poll dish_down, Tick, Poll dish_up_obstructed]) \<and>
   dish_status_previous (run [Poll dish_up, Poll dish_down, Tick, Poll dish_up]) \<noteq>
     dish_status_previous
       (run [Poll dish_up_obstructed, Poll dish_down, Tick, Poll dish_up_obstructed])"
proof -
  have s: "same_but_payload (Poll dish_up) (Poll dish_up_obstructed)"
    "same_but_payload (Poll dish_down) (Poll dish_down)"
    by (simp_all add: online_def check_dish_ping_def fetch_returns_def fetched_def world_eval
        get_dish_status_json_def raise_for_status_def is_RequestException_def)
  then have a: "list_all2 same_but_payload
     [Poll dish_up, Poll dish_down, Tick, Poll dish_up]
     [Poll dish_up_obstructed, Poll dish_down, Tick, Poll dish_up_obstructed]"
    by simp
  have d: "dish_status_previous (run [Poll dish_up, Poll dish_down, Tick, Poll dish_up]) \<noteq>
     dish_status_previous
       (run [Poll dish_up_obstructed, Poll dish_down, Tick, Poll dish_up_obstructed])"
    by (simp add: run_eval world_eval)
  from a d payload_never_observed [OF a] show ?thesis by simp
qed



end
